theory Spec2Isabelle
  imports Main "HOL-Library.Sublist"
begin

section \<open>JavaScript values\<close>

text \<open>
  The middleware of \<^verbatim>\<open>Knife4jDoc\<close> handles JavaScript values it does not own the type of
  (\<^verbatim>\<open>req: any\<close>, a document with an index signature \<^verbatim>\<open>[key: string]: any\<close>), and it
  guards its reads with truthiness tests. The values are therefore modelled untyped.

  \<^item> Strings are HOL strings; text outside ASCII is written as its UTF-8 bytes. The code
    only compares, concatenates and prefix-tests strings, and UTF-8 agrees with
    JavaScript's UTF-16 strings on these.
  \<^item> Numbers are opaque to the code. Finite numbers are integers here; the three
    non-finite numbers are kept because \<^verbatim>\<open>JSON.stringify\<close> treats them differently.
  \<^item> A document is a finite tree (the specification's ``deeply-nested key-value
    document''): an object is the list of its own enumerable properties in enumeration
    order, and a JavaScript object has each key once. Functions, symbols, big integers
    and cyclic object graphs are not modelled. The objects are plain: each inherits from
    \<^verbatim>\<open>Object.prototype\<close> and from nothing else.
\<close>

datatype jsnum = Finite int | NaN | PosInfinity | NegInfinity

datatype prim = PUndefined | PNull | PBool bool | PNum jsnum | PStr string

datatype jsval = JPrim prim | JArr "jsval list" | JObj "(string \<times> jsval) list"

abbreviation JUndefined :: jsval where "JUndefined \<equiv> JPrim PUndefined"
abbreviation JStr :: "string \<Rightarrow> jsval" where "JStr s \<equiv> JPrim (PStr s)"

text \<open>
  The group label meaning ``all'' (the two characters U+5168 U+90E8) and the default
  display name (\<^verbatim>\<open>API\<close> followed by U+63A5 U+53E3 U+6587 U+6863), in UTF-8.
\<close>

definition all_label :: string where
  "all_label = [CHR 0xE5, CHR 0x85, CHR 0xA8, CHR 0xE9, CHR 0x83, CHR 0xA8]"

definition default_name :: string where
  "default_name = ''API'' @ [CHR 0xE6, CHR 0x8E, CHR 0xA5, CHR 0xE5, CHR 0x8F, CHR 0xA3,
                             CHR 0xE6, CHR 0x96, CHR 0x87, CHR 0xE6, CHR 0xA1, CHR 0xA3]"

subsection \<open>Truthiness, property reads and writes\<close>

fun truthy_prim :: "prim \<Rightarrow> bool" where
  "truthy_prim PUndefined = False"
| "truthy_prim PNull = False"
| "truthy_prim (PBool b) = b"
| "truthy_prim (PNum (Finite i)) = (i \<noteq> 0)"
| "truthy_prim (PNum NaN) = False"
| "truthy_prim (PNum _) = True"
| "truthy_prim (PStr s) = (s \<noteq> [])"

fun truthy :: "jsval \<Rightarrow> bool" where
  "truthy (JPrim p) = truthy_prim p"
| "truthy _ = True"

definition digit_char :: "nat \<Rightarrow> char" where
  "digit_char n = ''0123456789'' ! n"

fun decimal :: "nat \<Rightarrow> string" where
  "decimal n = (if n < 10 then [digit_char n] else decimal (n div 10) @ [digit_char (n mod 10)])"

text \<open>Arrays and strings are indexable: their own enumerable keys are the indices.\<close>

definition indexed :: "'a list \<Rightarrow> (string \<times> 'a) list" where
  "indexed xs = zip (map decimal [0..<length xs]) xs"

definition lookup_or_undefined :: "(string \<times> jsval) list \<Rightarrow> string \<Rightarrow> jsval" where
  "lookup_or_undefined kvs k = (case map_of kvs k of Some v \<Rightarrow> v | None \<Rightarrow> JUndefined)"

text \<open>
  \<^verbatim>\<open>v[k]\<close> for a key \<open>k\<close> that \<open>v\<close> has of its own or that names nothing \<open>v\<close>
  inherits: the value of the own property, or \<^verbatim>\<open>undefined\<close>. The handlers read fixed
  names that no prototype has (\<^verbatim>\<open>paths\<close>, \<^verbatim>\<open>tags\<close>) and keys that \<^verbatim>\<open>for...in\<close> gave
  them; their one read that can meet an inherited member, \<^verbatim>\<open>groupPaths[path]\<close>, is
  treated where it stands (\<open>filter_methods\<close> below). The code never reads a property of
  \<^verbatim>\<open>null\<close> or \<^verbatim>\<open>undefined\<close> (each read is guarded); the equation for them is never
  used.
\<close>

fun get_prop :: "jsval \<Rightarrow> string \<Rightarrow> jsval" where
  "get_prop (JObj kvs) k = lookup_or_undefined kvs k"
| "get_prop (JArr xs) k =
     (if k = ''length'' then JPrim (PNum (Finite (int (length xs))))
      else lookup_or_undefined (indexed xs) k)"
| "get_prop (JPrim (PStr s)) k =
     (if k = ''length'' then JPrim (PNum (Finite (int (length s))))
      else lookup_or_undefined (indexed (map (\<lambda>c. JStr [c]) s)) k)"
| "get_prop (JPrim _) k = JUndefined"

text \<open>
  The keys \<^verbatim>\<open>for (const k in v)\<close> visits, in order: the own enumerable keys, since
  nothing enumerable is inherited from \<^verbatim>\<open>Object.prototype\<close>.
\<close>

fun own_keys :: "jsval \<Rightarrow> string list" where
  "own_keys (JObj kvs) = map fst kvs"
| "own_keys (JArr xs) = map fst (indexed xs)"
| "own_keys (JPrim (PStr s)) = map fst (indexed s)"
| "own_keys (JPrim _) = []"

fun assign :: "(string \<times> jsval) list \<Rightarrow> string \<Rightarrow> jsval \<Rightarrow> (string \<times> jsval) list" where
  "assign [] k v = [(k, v)]"
| "assign ((k', v') # kvs) k v = (if k' = k then (k, v) # kvs else (k', v') # assign kvs k v)"

text \<open>
  \<^verbatim>\<open>o[k] = v\<close> on an object: an existing key keeps its place, a new key goes last
  (JavaScript sorts keys that are array indices before the others; no property proved
  here depends on the place of a key). The code assigns only to plain objects. The key
  \<^verbatim>\<open>__proto__\<close> is not assigned so (it is written through the setter that
  \<^verbatim>\<open>Object.prototype\<close> has for it): the handlers assign the fixed keys \<^verbatim>\<open>urls\<close> and
  \<^verbatim>\<open>paths\<close>, and \<open>filter_methods\<close> below stops before it assigns \<^verbatim>\<open>__proto__\<close>.
\<close>

fun set_prop :: "jsval \<Rightarrow> string \<Rightarrow> jsval \<Rightarrow> jsval" where
  "set_prop (JObj kvs) k v = JObj (assign kvs k v)"
| "set_prop other k v = other"

subsection \<open>\<^verbatim>\<open>JSON.stringify\<close> and \<^verbatim>\<open>JSON.parse\<close>\<close>

text \<open>
  A JSON text is modelled by its syntax tree, members in the order they are printed; the
  bytes of the text are a fixed function of this tree.
\<close>

datatype json = Jnull | Jbool bool | Jnumber int | Jstring string
  | Jarray "json list" | Jobject "(string \<times> json) list"

text \<open>
  \<^verbatim>\<open>JSON.stringify(v)\<close>; \<open>None\<close> is the result \<^verbatim>\<open>undefined\<close>. A property whose value is
  \<^verbatim>\<open>undefined\<close> is left out, an \<^verbatim>\<open>undefined\<close> array element and a non-finite number
  become \<^verbatim>\<open>null\<close>.
\<close>

fun JSON_stringify :: "jsval \<Rightarrow> json option"
  and stringify_elements :: "jsval list \<Rightarrow> json list"
  and stringify_members :: "(string \<times> jsval) list \<Rightarrow> (string \<times> json) list" where
  "JSON_stringify (JPrim PUndefined) = None"
| "JSON_stringify (JPrim PNull) = Some Jnull"
| "JSON_stringify (JPrim (PBool b)) = Some (Jbool b)"
| "JSON_stringify (JPrim (PNum (Finite i))) = Some (Jnumber i)"
| "JSON_stringify (JPrim (PNum NaN)) = Some Jnull"
| "JSON_stringify (JPrim (PNum PosInfinity)) = Some Jnull"
| "JSON_stringify (JPrim (PNum NegInfinity)) = Some Jnull"
| "JSON_stringify (JPrim (PStr s)) = Some (Jstring s)"
| "JSON_stringify (JArr xs) = Some (Jarray (stringify_elements xs))"
| "JSON_stringify (JObj kvs) = Some (Jobject (stringify_members kvs))"
| "stringify_elements [] = []"
| "stringify_elements (x # xs) =
     (case JSON_stringify x of None \<Rightarrow> Jnull | Some j \<Rightarrow> j) # stringify_elements xs"
| "stringify_members [] = []"
| "stringify_members ((k, v) # kvs) =
     (case JSON_stringify v of None \<Rightarrow> stringify_members kvs
      | Some j \<Rightarrow> (k, j) # stringify_members kvs)"

text \<open>
  \<^verbatim>\<open>JSON.parse\<close> of a text with that syntax tree: members are defined one after the
  other on a new object, so a repeated key keeps its first place and its last value.
\<close>

fun JSON_parse :: "json \<Rightarrow> jsval"
  and parse_elements :: "json list \<Rightarrow> jsval list"
  and parse_members :: "(string \<times> json) list \<Rightarrow> (string \<times> jsval) list \<Rightarrow> (string \<times> jsval) list" where
  "JSON_parse Jnull = JPrim PNull"
| "JSON_parse (Jbool b) = JPrim (PBool b)"
| "JSON_parse (Jnumber i) = JPrim (PNum (Finite i))"
| "JSON_parse (Jstring s) = JStr s"
| "JSON_parse (Jarray js) = JArr (parse_elements js)"
| "JSON_parse (Jobject ms) = JObj (parse_members ms [])"
| "parse_elements [] = []"
| "parse_elements (j # js) = JSON_parse j # parse_elements js"
| "parse_members [] acc = acc"
| "parse_members ((k, j) # ms) acc = parse_members ms (assign acc k (JSON_parse j))"

text \<open>
  A value is JSON-serializable when the text says all of it: no \<^verbatim>\<open>undefined\<close>
  anywhere, no non-finite number, and every object has each key once.
\<close>

fun serializable :: "jsval \<Rightarrow> bool"
  and serializable_elements :: "jsval list \<Rightarrow> bool"
  and serializable_members :: "(string \<times> jsval) list \<Rightarrow> bool" where
  "serializable (JPrim PUndefined) = False"
| "serializable (JPrim (PNum (Finite i))) = True"
| "serializable (JPrim (PNum _)) = False"
| "serializable (JPrim _) = True"
| "serializable (JArr xs) = serializable_elements xs"
| "serializable (JObj kvs) = (distinct (map fst kvs) \<and> serializable_members kvs)"
| "serializable_elements [] = True"
| "serializable_elements (x # xs) = (serializable x \<and> serializable_elements xs)"
| "serializable_members [] = True"
| "serializable_members ((k, v) # kvs) = (serializable v \<and> serializable_members kvs)"

section \<open>The store\<close>

text \<open>
  The adapter keeps a reference to the caller's document, and two of the claims are about
  which object a response body is. Objects that the program holds in a variable or a
  field therefore live in a store: a value is a primitive or a reference, and a cell holds
  the object's content as a tree. Allocation takes the next free address. What an object
  contains belongs to its tree: sharing below the top of a cell is not modelled, and a
  value assigned into an object is copied into the tree.
\<close>

type_synonym addr = nat

datatype val = VPrim prim | VRef addr

type_synonym store = "jsval list"

datatype fault = TypeError | SyntaxError | Dangling | Unmodelled

fun typeof :: "val \<Rightarrow> string" where
  "typeof (VPrim PUndefined) = ''undefined''"
| "typeof (VPrim PNull) = ''object''"
| "typeof (VPrim (PBool b)) = ''boolean''"
| "typeof (VPrim (PNum n)) = ''number''"
| "typeof (VPrim (PStr s)) = ''string''"
| "typeof (VRef a) = ''object''"

fun truthy_val :: "val \<Rightarrow> bool" where
  "truthy_val (VPrim p) = truthy_prim p"
| "truthy_val (VRef a) = True"

text \<open>
  \<open>TypeError\<close> and \<open>SyntaxError\<close> are the exceptions of JavaScript. The other two are
  not exceptions. No JavaScript program holds a reference to nothing; \<open>Dangling\<close> marks
  such a state of the model. \<open>Unmodelled\<close> marks the point where the code goes on with
  something the model has not (a built-in function, a prototype, a set of values that are
  not strings): the model stops there and says nothing of the rest of the run.

  The tree a value stands for:
\<close>

fun deref :: "store \<Rightarrow> val \<Rightarrow> fault + jsval" where
  "deref \<sigma> (VPrim p) = Inr (JPrim p)"
| "deref \<sigma> (VRef a) = (if a < length \<sigma> then Inr (\<sigma> ! a) else Inl Dangling)"

text \<open>A newly built value: an object or an array gets a cell of its own.\<close>

fun new_value :: "store \<Rightarrow> jsval \<Rightarrow> val \<times> store" where
  "new_value \<sigma> (JPrim p) = (VPrim p, \<sigma>)"
| "new_value \<sigma> t = (VRef (length \<sigma>), \<sigma> @ [t])"

text \<open>
  \<^verbatim>\<open>JSON.parse(JSON.stringify(v))\<close>. \<^verbatim>\<open>JSON.parse(undefined)\<close> throws a
  \<^verbatim>\<open>SyntaxError\<close>.
\<close>

definition JSON_roundtrip :: "store \<Rightarrow> val \<Rightarrow> fault + val \<times> store" where
  "JSON_roundtrip \<sigma> v =
     (case deref \<sigma> v of
        Inl e \<Rightarrow> Inl e
      | Inr t \<Rightarrow>
          (case JSON_stringify t of
             None \<Rightarrow> Inl SyntaxError
           | Some text \<Rightarrow> Inr (new_value \<sigma> (JSON_parse text))))"

section \<open>The adapter and its surroundings\<close>

text \<open>
  \<^verbatim>\<open>path.join\<close> and \<^verbatim>\<open>process.cwd()\<close> belong to the Node.js runtime; they are
  parameters of the model. The record of the adapter serves both versions of the class;
  the earlier one has no \<^verbatim>\<open>name\<close>.
\<close>

record node =
  process_cwd :: string
  path_join :: "string \<Rightarrow> string \<Rightarrow> string"

record knife4j_doc =
  swaggerJson :: val
  name :: string

text \<open>
  \<^verbatim>\<open>constructor(swaggerJson: SwaggerJson = {}, name: string = default_name)\<close>: a default
  replaces an argument that is \<^verbatim>\<open>undefined\<close> (\<open>None\<close> for the name), and only that.
\<close>

definition new_Knife4jDoc :: "store \<Rightarrow> val \<Rightarrow> string option \<Rightarrow> knife4j_doc \<times> store" where
  "new_Knife4jDoc \<sigma> swaggerJson_arg name_arg =
     (let (doc, \<sigma>1) = (if swaggerJson_arg = VPrim PUndefined then new_value \<sigma> (JObj [])
                        else (swaggerJson_arg, \<sigma>))
      in (\<lparr>swaggerJson = doc,
           name = (case name_arg of None \<Rightarrow> default_name | Some n \<Rightarrow> n)\<rparr>, \<sigma>1))"

definition getSwaggerJson :: "knife4j_doc \<Rightarrow> val" where
  "getSwaggerJson this = swaggerJson this"

definition getKnife4jUiPath :: "node \<Rightarrow> string" where
  "getKnife4jUiPath env = path_join env (process_cwd env) ''node_modules/node-knife4j-ui/static''"

definition getSwagger :: "node \<Rightarrow> string" where
  "getSwagger env = path_join env (process_cwd env) ''static/swagger.json''"

text \<open>
  What the handlers read of a request (\<^verbatim>\<open>req.url\<close>, \<^verbatim>\<open>req.query\<close>) and what they
  write. \<^verbatim>\<open>req.url\<close> is the string the handlers compare: the specification calls it the
  request path. The frameworks derive \<^verbatim>\<open>query\<close> from the query string that \<^verbatim>\<open>url\<close>
  ends with; the model takes both as given, so it covers every pair the frameworks can
  produce. A status that is \<open>None\<close> has not been set by the handler. A handler's run
  ends in a fault (an exception) or in the new store, the response, the number of calls
  of \<^verbatim>\<open>next\<close> (the continuation itself is not run) and the lines written with
  \<^verbatim>\<open>console.error\<close>.
\<close>

record request =
  url :: string
  query :: "string \<rightharpoonup> string"

record response =
  statusCode :: "nat option"
  headers :: "(string \<times> string) list"
  sent :: "val option"

record koa_context = request +
  status :: "nat option"
  ctype :: "string option"
  body :: "val option"

record 'r run =
  heap :: store
  out :: 'r
  next_calls :: nat
  console :: "string list"

definition fresh_res :: response where
  "fresh_res = \<lparr>statusCode = None, headers = [], sent = None\<rparr>"

definition fresh_ctx :: "request \<Rightarrow> koa_context" where
  "fresh_ctx req = \<lparr>url = url req, query = query req, status = None, ctype = None, body = None\<rparr>"

section \<open>The current protocol (\<^verbatim>\<open>src/index.ts\<close>)\<close>

text \<open>
  \<^verbatim>\<open>serveExpress(prefix)\<close> returns the handler \<^verbatim>\<open>(req, res, next) => ...\<close>. The
  field \<^verbatim>\<open>swaggerJson\<close> is private and assigned in the constructor only, so the
  reference captured when the handler is made and \<^verbatim>\<open>this.swaggerJson\<close> at the request
  are the same value. \<^verbatim>\<open>res.json(v)\<close> sends \<^verbatim>\<open>JSON.stringify(v)\<close>; the response
  records \<^verbatim>\<open>v\<close>.
\<close>

definition serveExpress ::
  "node \<Rightarrow> knife4j_doc \<Rightarrow> string \<Rightarrow> request \<Rightarrow> response \<Rightarrow> store \<Rightarrow> fault + response run" where
  "serveExpress env this prefix' req res \<sigma> =
     (let swaggerJson = swaggerJson this in
      if \<not> truthy_val swaggerJson \<or> typeof swaggerJson \<noteq> ''object'' then
        (let (b, \<sigma>1) = new_value \<sigma> (JObj
               [(''error'', JStr ''Swagger configuration is not available''),
                (''message'', JStr ''Please check if swaggerJson was properly passed to Knife4jDoc constructor'')])
         in Inr \<lparr>heap = \<sigma>1, out = res\<lparr>statusCode := Some 500, sent := Some b\<rparr>, next_calls = 0,
                  console = [''Knife4jDoc: swaggerJson is invalid or undefined'']\<rparr>)
      else
        (case JSON_roundtrip \<sigma> (knife4j_doc.swaggerJson this) of
           Inl e \<Rightarrow> Inl e
         | Inr (swaggerDocs, \<sigma>1) \<Rightarrow>
             if url req = ''/services.json'' then
               (let (services, \<sigma>2) = new_value \<sigma>1 (JArr [JObj
                      [(''name'', JStr (name this)),
                       (''url'', JStr (prefix' @ ''/swagger.json'')),
                       (''location'', JStr (getSwagger env)),
                       (''swaggerVersion'', JStr ''3.0.0'')]])
                in Inr \<lparr>heap = \<sigma>2, out = res\<lparr>sent := Some services\<rparr>, next_calls = 0, console = []\<rparr>)
             else if url req = prefix' @ ''/swagger.json'' then
               Inr \<lparr>heap = \<sigma>1, out = res\<lparr>sent := Some swaggerDocs\<rparr>, next_calls = 0, console = []\<rparr>
             else
               Inr \<lparr>heap = \<sigma>1, out = res, next_calls = 1, console = []\<rparr>))"

text \<open>
  \<^verbatim>\<open>serveKoa(prefix)\<close> returns \<^verbatim>\<open>async (ctx, next) => ...\<close>; the context carries the
  request and the response.
\<close>

definition serveKoa ::
  "node \<Rightarrow> knife4j_doc \<Rightarrow> string \<Rightarrow> koa_context \<Rightarrow> store \<Rightarrow> fault + koa_context run" where
  "serveKoa env this prefix' ctx \<sigma> =
     (let swaggerJson = swaggerJson this in
      if \<not> truthy_val swaggerJson \<or> typeof swaggerJson \<noteq> ''object'' then
        (let ctx1 = ctx\<lparr>status := Some 500\<rparr>;
             (b, \<sigma>1) = new_value \<sigma> (JObj
               [(''error'', JStr ''Swagger configuration is not available''),
                (''message'', JStr ''Please check if swaggerJson was properly passed to Knife4jDoc constructor'')])
         in Inr \<lparr>heap = \<sigma>1, out = ctx1\<lparr>body := Some b\<rparr>, next_calls = 0,
                  console = [''Knife4jDoc: swaggerJson is invalid or undefined'']\<rparr>)
      else
        (case JSON_roundtrip \<sigma> (knife4j_doc.swaggerJson this) of
           Inl e \<Rightarrow> Inl e
         | Inr (swaggerDocs, \<sigma>1) \<Rightarrow>
             if url ctx = ''/services.json'' then
               (let (services, \<sigma>2) = new_value \<sigma>1 (JArr [JObj
                      [(''name'', JStr (name this)),
                       (''url'', JStr (prefix' @ ''/swagger.json'')),
                       (''location'', JStr (getSwagger env)),
                       (''swaggerVersion'', JStr ''3.0.0'')]])
                in Inr \<lparr>heap = \<sigma>2, out = ctx\<lparr>body := Some services\<rparr>, next_calls = 0, console = []\<rparr>)
             else if url ctx = prefix' @ ''/swagger.json'' then
               Inr \<lparr>heap = \<sigma>1, out = ctx\<lparr>body := Some swaggerDocs\<rparr>, next_calls = 0, console = []\<rparr>
             else
               Inr \<lparr>heap = \<sigma>1, out = ctx, next_calls = 1, console = []\<rparr>))"

section \<open>The legacy protocol (the earlier \<^verbatim>\<open>index.ts\<close>)\<close>

text \<open>
  The earlier version of the class serves tag groups. Its handlers work on the stored
  document itself: \<^verbatim>\<open>const swaggerDocs = swaggerJson\<close> copies the reference. The two
  handlers repeat the tag scan and the group list word for word in the branches for
  \<^verbatim>\<open>/v3/api-docs/swagger-config\<close> and \<^verbatim>\<open>/swagger-resources\<close>; the model has each once.
\<close>

text \<open>\<^verbatim>\<open>o.k = v\<close> through a reference; the handlers assign to the document only.\<close>

fun assign_field :: "store \<Rightarrow> val \<Rightarrow> string \<Rightarrow> jsval \<Rightarrow> fault + store" where
  "assign_field \<sigma> (VRef a) k v =
     (if a < length \<sigma> then Inr (\<sigma>[a := set_prop (\<sigma> ! a) k v]) else Inl Dangling)"
| "assign_field \<sigma> (VPrim p) k v = Inl TypeError"

text \<open>
  The names of the members of \<^verbatim>\<open>Object.prototype\<close>, which every plain object inherits:
  functions, and the accessor \<^verbatim>\<open>__proto__\<close>.
\<close>

definition Object_prototype_names :: "string list" where
  "Object_prototype_names =
     [''constructor'', ''hasOwnProperty'', ''isPrototypeOf'', ''propertyIsEnumerable'',
      ''toLocaleString'', ''toString'', ''valueOf'', ''__proto__'',
      ''__defineGetter__'', ''__defineSetter__'', ''__lookupGetter__'', ''__lookupSetter__'']"

text \<open>
  \<^verbatim>\<open>v.hasOwnProperty(k)\<close>. The method is the inherited one unless \<open>v\<close> has a property
  \<^verbatim>\<open>hasOwnProperty\<close> of its own; that property is then what the code calls, and no value
  of the model is a function. Arrays and strings have \<^verbatim>\<open>length\<close> besides their indices.
\<close>

fun hasOwnProperty :: "jsval \<Rightarrow> string \<Rightarrow> fault + bool" where
  "hasOwnProperty (JObj kvs) k =
     (if ''hasOwnProperty'' \<in> set (map fst kvs) then Inl TypeError else Inr (k \<in> set (map fst kvs)))"
| "hasOwnProperty (JArr xs) k = Inr (k = ''length'' \<or> k \<in> set (own_keys (JArr xs)))"
| "hasOwnProperty (JPrim (PStr s)) k = Inr (k = ''length'' \<or> k \<in> set (own_keys (JStr s)))"
| "hasOwnProperty (JPrim PUndefined) k = Inl TypeError"
| "hasOwnProperty (JPrim PNull) k = Inl TypeError"
| "hasOwnProperty (JPrim p) k = Inr False"

text \<open>
  \<^verbatim>\<open>uniqueTags\<close> is a \<^verbatim>\<open>Set<string>\<close>: the members in insertion order.
  \<^verbatim>\<open>operation.tags.forEach(tag => uniqueTags.add(tag))\<close> needs an array; on any other
  truthy value \<^verbatim>\<open>forEach\<close> is not a function. The model follows the set as long as its
  members are strings, as the type says.
\<close>

fun string_of :: "jsval \<Rightarrow> string option" where
  "string_of (JPrim (PStr s)) = Some s"
| "string_of other = None"

definition Set_add :: "string list \<Rightarrow> string \<Rightarrow> string list" where
  "Set_add uniqueTags tag = (if tag \<in> set uniqueTags then uniqueTags else uniqueTags @ [tag])"

fun tags_forEach_add :: "jsval \<Rightarrow> string list \<Rightarrow> fault + string list" where
  "tags_forEach_add (JArr tags) uniqueTags =
     (case those (map string_of tags) of
        None \<Rightarrow> Inl Unmodelled
      | Some strings \<Rightarrow> Inr (foldl Set_add uniqueTags strings))"
| "tags_forEach_add other uniqueTags = Inl TypeError"

text \<open>
  The inner loop of the tag scan,
  \<^verbatim>\<open>for (const method in pathObject) if (pathObject.hasOwnProperty(method))\<close>.
\<close>

fun scan_methods :: "jsval \<Rightarrow> string list \<Rightarrow> string list \<Rightarrow> fault + string list" where
  "scan_methods pathObject [] uniqueTags = Inr uniqueTags"
| "scan_methods pathObject (method # methods) uniqueTags =
     (case hasOwnProperty pathObject method of
        Inl e \<Rightarrow> Inl e
      | Inr own \<Rightarrow>
          if own then
            (let operation = get_prop pathObject method in
             if truthy operation \<and> truthy (get_prop operation ''tags'') then
               (case tags_forEach_add (get_prop operation ''tags'') uniqueTags of
                  Inl e \<Rightarrow> Inl e
                | Inr uniqueTags1 \<Rightarrow> scan_methods pathObject methods uniqueTags1)
             else scan_methods pathObject methods uniqueTags)
          else scan_methods pathObject methods uniqueTags)"

text \<open>
  The outer loop,
  \<^verbatim>\<open>for (const path in swaggerDocs.paths) if (swaggerDocs.paths.hasOwnProperty(path))\<close>.
\<close>

fun scan_paths :: "jsval \<Rightarrow> string list \<Rightarrow> string list \<Rightarrow> fault + string list" where
  "scan_paths paths [] uniqueTags = Inr uniqueTags"
| "scan_paths paths (path # rest) uniqueTags =
     (case hasOwnProperty paths path of
        Inl e \<Rightarrow> Inl e
      | Inr own \<Rightarrow>
          if own then
            (let pathObject = get_prop paths path in
             case scan_methods pathObject (own_keys pathObject) uniqueTags of
               Inl e \<Rightarrow> Inl e
             | Inr uniqueTags1 \<Rightarrow> scan_paths paths rest uniqueTags1)
          else scan_paths paths rest uniqueTags)"

definition collect_uniqueTags :: "jsval \<Rightarrow> fault + string list" where
  "collect_uniqueTags swaggerDocs =
     (if truthy (get_prop swaggerDocs ''paths'')
      then scan_paths (get_prop swaggerDocs ''paths'') (own_keys (get_prop swaggerDocs ''paths'')) []
      else Inr [])"

text \<open>
  The array \<^verbatim>\<open>groups\<close>: the fixed first entry, then one entry pushed for each member of
  \<^verbatim>\<open>uniqueTags\<close>; \<^verbatim>\<open>`${prefix}/api-docs/${tag}`\<close> of a string \<^verbatim>\<open>tag\<close> has the string
  itself.
\<close>

definition build_groups :: "string \<Rightarrow> string list \<Rightarrow> jsval" where
  "build_groups prefix' uniqueTags =
     JArr (JObj [(''name'', JStr all_label),
                 (''location'', JStr (prefix' @ ''/api-docs/'' @ all_label)),
                 (''url'', JStr (prefix' @ ''/api-docs/'' @ all_label)),
                 (''swaggerVersion'', JStr ''3.0.0''),
                 (''servicePath'', JStr [])]
           # map (\<lambda>tag. JObj [(''name'', JStr tag),
                                (''location'', JStr (prefix' @ ''/api-docs/'' @ tag)),
                                (''url'', JStr (prefix' @ ''/api-docs/'' @ tag)),
                                (''swaggerVersion'', JStr ''3.0.0''),
                                (''servicePath'', JStr [])]) uniqueTags)"

text \<open>
  \<^verbatim>\<open>operation.tags.includes(groupName)\<close>: membership in an array, the substring test on a
  string, and not a function on any other truthy value.
\<close>

fun tags_includes :: "jsval \<Rightarrow> string \<Rightarrow> fault + bool" where
  "tags_includes (JArr tags) groupName = Inr (JStr groupName \<in> set tags)"
| "tags_includes (JPrim (PStr s)) groupName = Inr (sublist groupName s)"
| "tags_includes other groupName = Inl TypeError"

text \<open>
  The two loops of the tag filter, \<^verbatim>\<open>groupPaths\<close> being the object under construction.
  At a matching operation the code runs

  \<^verbatim>\<open>groupPaths[path] = groupPaths[path] || {}; groupPaths[path][method] = operation;\<close>

  When \<^verbatim>\<open>path\<close> names a member of \<^verbatim>\<open>Object.prototype\<close> that \<^verbatim>\<open>groupPaths\<close> has not of
  its own, the read gives the inherited member and the code writes into that built-in
  object; when \<^verbatim>\<open>method\<close> is \<^verbatim>\<open>__proto__\<close>, the write sets the prototype of the entry.
  The model stops at both.
\<close>

definition inherited :: "jsval \<Rightarrow> string \<Rightarrow> bool" where
  "inherited v k = (k \<in> set Object_prototype_names \<and> k \<notin> set (own_keys v))"

fun filter_methods :: "jsval \<Rightarrow> string \<Rightarrow> string \<Rightarrow> string list \<Rightarrow> jsval \<Rightarrow> fault + jsval" where
  "filter_methods pathObject path groupName [] groupPaths = Inr groupPaths"
| "filter_methods pathObject path groupName (method # methods) groupPaths =
     (case hasOwnProperty pathObject method of
        Inl e \<Rightarrow> Inl e
      | Inr own \<Rightarrow>
          if own then
            (let operation = get_prop pathObject method in
             if truthy operation \<and> truthy (get_prop operation ''tags'') then
               (case tags_includes (get_prop operation ''tags'') groupName of
                  Inl e \<Rightarrow> Inl e
                | Inr hit \<Rightarrow>
                    if hit then
                      (if inherited groupPaths path \<or> method = ''__proto__'' then Inl Unmodelled
                       else
                         (let groupPaths1 = set_prop groupPaths path
                                (if truthy (get_prop groupPaths path) then get_prop groupPaths path else JObj []);
                              groupPaths2 = set_prop groupPaths1 path
                                (set_prop (get_prop groupPaths1 path) method operation)
                          in filter_methods pathObject path groupName methods groupPaths2))
                    else filter_methods pathObject path groupName methods groupPaths)
             else filter_methods pathObject path groupName methods groupPaths)
          else filter_methods pathObject path groupName methods groupPaths)"

fun filter_paths :: "jsval \<Rightarrow> string \<Rightarrow> string list \<Rightarrow> jsval \<Rightarrow> fault + jsval" where
  "filter_paths paths groupName [] groupPaths = Inr groupPaths"
| "filter_paths paths groupName (path # rest) groupPaths =
     (case hasOwnProperty paths path of
        Inl e \<Rightarrow> Inl e
      | Inr own \<Rightarrow>
          if own then
            (let pathObject = get_prop paths path in
             case filter_methods pathObject path groupName (own_keys pathObject) groupPaths of
               Inl e \<Rightarrow> Inl e
             | Inr groupPaths1 \<Rightarrow> filter_paths paths groupName rest groupPaths1)
          else filter_paths paths groupName rest groupPaths)"

definition build_groupPaths :: "jsval \<Rightarrow> string \<Rightarrow> fault + jsval" where
  "build_groupPaths paths groupName =
     (if truthy paths then filter_paths paths groupName (own_keys paths) (JObj [])
      else Inr (JObj []))"

text \<open>\<^verbatim>\<open>req.query.groupName || all_label\<close>: an absent or empty parameter means ``all''.\<close>

definition groupName_of :: "(string \<rightharpoonup> string) \<Rightarrow> string" where
  "groupName_of q = (case q ''groupName'' of None \<Rightarrow> all_label
                     | Some g \<Rightarrow> if g \<noteq> [] then g else all_label)"

text \<open>
  The handlers. The content of the document is looked up once, after the guard; the last
  branch does not read it.
\<close>

definition legacy_serveExpress ::
  "knife4j_doc \<Rightarrow> string \<Rightarrow> request \<Rightarrow> response \<Rightarrow> store \<Rightarrow> fault + response run" where
  "legacy_serveExpress this prefix' req res \<sigma> =
     (let swaggerJson = swaggerJson this in
      if \<not> truthy_val swaggerJson \<or> typeof swaggerJson \<noteq> ''object'' then
        (let (b, \<sigma>1) = new_value \<sigma> (JObj
               [(''error'', JStr ''Swagger configuration is not available''),
                (''message'', JStr ''Please check if swaggerJson was properly passed to Knife4jDoc constructor'')])
         in Inr \<lparr>heap = \<sigma>1, out = res\<lparr>statusCode := Some 500, sent := Some b\<rparr>, next_calls = 0,
                  console = [''Knife4jDoc: swaggerJson is invalid or undefined'']\<rparr>)
      else
        (let swaggerDocs = swaggerJson;
             groupName = groupName_of (query req)
         in case deref \<sigma> swaggerDocs of
              Inl e \<Rightarrow> Inl e
            | Inr doc \<Rightarrow>
                if url req = ''/v3/api-docs/swagger-config'' then
                  (case collect_uniqueTags doc of
                     Inl e \<Rightarrow> Inl e
                   | Inr uniqueTags \<Rightarrow>
                       (case assign_field \<sigma> swaggerDocs ''urls'' (build_groups prefix' uniqueTags) of
                          Inl e \<Rightarrow> Inl e
                        | Inr \<sigma>1 \<Rightarrow>
                            Inr \<lparr>heap = \<sigma>1,
                                 out = res\<lparr>headers := headers res @ [(''Content-Type'', ''application/json'')],
                                           sent := Some swaggerDocs\<rparr>,
                                 next_calls = 0, console = []\<rparr>))
                else if url req = ''/swagger-resources'' then
                  (case collect_uniqueTags doc of
                     Inl e \<Rightarrow> Inl e
                   | Inr uniqueTags \<Rightarrow>
                       (let (groups, \<sigma>1) = new_value \<sigma> (build_groups prefix' uniqueTags)
                        in Inr \<lparr>heap = \<sigma>1, out = res\<lparr>sent := Some groups\<rparr>, next_calls = 0, console = []\<rparr>))
                else if prefix ''/api-docs/'' (url req) then
                  (let paths = get_prop doc ''paths'' in
                   if groupName = all_label then
                     Inr \<lparr>heap = \<sigma>, out = res\<lparr>sent := Some swaggerDocs\<rparr>, next_calls = 0, console = []\<rparr>
                   else
                     (case build_groupPaths paths groupName of
                        Inl e \<Rightarrow> Inl e
                      | Inr groupPaths \<Rightarrow>
                          (case assign_field \<sigma> swaggerDocs ''paths'' groupPaths of
                             Inl e \<Rightarrow> Inl e
                           | Inr \<sigma>1 \<Rightarrow>
                               Inr \<lparr>heap = \<sigma>1, out = res\<lparr>sent := Some swaggerDocs\<rparr>,
                                    next_calls = 0, console = []\<rparr>)))
                else
                  Inr \<lparr>heap = \<sigma>, out = res, next_calls = 1, console = []\<rparr>))"

definition legacy_serveKoa ::
  "knife4j_doc \<Rightarrow> string \<Rightarrow> koa_context \<Rightarrow> store \<Rightarrow> fault + koa_context run" where
  "legacy_serveKoa this prefix' ctx \<sigma> =
     (let swaggerJson = swaggerJson this in
      if \<not> truthy_val swaggerJson \<or> typeof swaggerJson \<noteq> ''object'' then
        (let ctx1 = ctx\<lparr>status := Some 500\<rparr>;
             (b, \<sigma>1) = new_value \<sigma> (JObj
               [(''error'', JStr ''Swagger configuration is not available''),
                (''message'', JStr ''Please check if swaggerJson was properly passed to Knife4jDoc constructor'')])
         in Inr \<lparr>heap = \<sigma>1, out = ctx1\<lparr>body := Some b\<rparr>, next_calls = 0,
                  console = [''Knife4jDoc: swaggerJson is invalid or undefined'']\<rparr>)
      else
        (let swaggerDocs = swaggerJson;
             groupName = groupName_of (query ctx)
         in case deref \<sigma> swaggerDocs of
              Inl e \<Rightarrow> Inl e
            | Inr doc \<Rightarrow>
                if url ctx = ''/v3/api-docs/swagger-config'' then
                  (case collect_uniqueTags doc of
                     Inl e \<Rightarrow> Inl e
                   | Inr uniqueTags \<Rightarrow>
                       (case assign_field \<sigma> swaggerDocs ''urls'' (build_groups prefix' uniqueTags) of
                          Inl e \<Rightarrow> Inl e
                        | Inr \<sigma>1 \<Rightarrow>
                            Inr \<lparr>heap = \<sigma>1,
                                 out = ctx\<lparr>ctype := Some ''application/json'', body := Some swaggerDocs\<rparr>,
                                 next_calls = 0, console = []\<rparr>))
                else if url ctx = ''/swagger-resources'' then
                  (case collect_uniqueTags doc of
                     Inl e \<Rightarrow> Inl e
                   | Inr uniqueTags \<Rightarrow>
                       (let (groups, \<sigma>1) = new_value \<sigma> (build_groups prefix' uniqueTags)
                        in Inr \<lparr>heap = \<sigma>1, out = ctx\<lparr>body := Some groups\<rparr>, next_calls = 0, console = []\<rparr>))
                else if prefix ''/api-docs/'' (url ctx) then
                  (let paths = get_prop doc ''paths'' in
                   if groupName = all_label then
                     Inr \<lparr>heap = \<sigma>, out = ctx\<lparr>body := Some swaggerDocs\<rparr>, next_calls = 0, console = []\<rparr>
                   else
                     (case build_groupPaths paths groupName of
                        Inl e \<Rightarrow> Inl e
                      | Inr groupPaths \<Rightarrow>
                          (case assign_field \<sigma> swaggerDocs ''paths'' groupPaths of
                             Inl e \<Rightarrow> Inl e
                           | Inr \<sigma>1 \<Rightarrow>
                               Inr \<lparr>heap = \<sigma>1, out = ctx\<lparr>body := Some swaggerDocs\<rparr>,
                                    next_calls = 0, console = []\<rparr>)))
                else
                  Inr \<lparr>heap = \<sigma>, out = ctx, next_calls = 1, console = []\<rparr>))"

section \<open>Vocabulary of the properties\<close>

text \<open>A value that passes the handlers' guard and refers to an object (or array) of the store.\<close>

fun is_object :: "store \<Rightarrow> val \<Rightarrow> bool" where
  "is_object \<sigma> (VRef a) = (a < length \<sigma> \<and> (case \<sigma> ! a of JPrim p \<Rightarrow> False | _ \<Rightarrow> True))"
| "is_object \<sigma> (VPrim p) = False"

text \<open>The JSON text that goes out for a body: \<^verbatim>\<open>JSON.stringify\<close> of the value.\<close>

definition wire :: "store \<Rightarrow> val \<Rightarrow> fault + json option" where
  "wire \<sigma> v = (case deref \<sigma> v of Inl e \<Rightarrow> Inl e | Inr t \<Rightarrow> Inr (JSON_stringify t))"

text \<open>
  What a client and the next handler see of a run: the status written, the content of the
  body written, and whether \<^verbatim>\<open>next\<close> was called.
\<close>

record observation =
  obs_status :: "nat option"
  obs_body :: "(fault + jsval) option"
  obs_next :: nat

definition observe_express :: "response run \<Rightarrow> observation" where
  "observe_express r =
     \<lparr>obs_status = statusCode (out r),
      obs_body = map_option (deref (heap r)) (sent (out r)),
      obs_next = next_calls r\<rparr>"

definition observe_koa :: "koa_context run \<Rightarrow> observation" where
  "observe_koa r =
     \<lparr>obs_status = status (out r),
      obs_body = map_option (deref (heap r)) (body (out r)),
      obs_next = next_calls r\<rparr>"

text \<open>The content of the body an Express run sent, if it sent one.\<close>

definition sent_content :: "fault + response run \<Rightarrow> jsval option" where
  "sent_content result =
     (case result of
        Inl e \<Rightarrow> None
      | Inr r \<Rightarrow>
          (case sent (out r) of
             None \<Rightarrow> None
           | Some b \<Rightarrow> (case deref (heap r) b of Inl e \<Rightarrow> None | Inr t \<Rightarrow> Some t)))"

subsection \<open>Documents of the declared shape\<close>

text \<open>
  The legacy file declares \<^verbatim>\<open>paths?: { [path]: { [method]: { tags?: string[]; ... } } }\<close>.
  A document conforms when \<^verbatim>\<open>paths\<close> is absent or an object of objects, the
  \<^verbatim>\<open>tags\<close> of an entry, where it has any, are an array of strings, and no path and no
  method is called like a member of \<^verbatim>\<open>Object.prototype\<close> (as no URL path and no HTTP
  method is). Entries without tags may be any value.
\<close>

definition ordinary_key :: "string \<Rightarrow> bool" where
  "ordinary_key k = (k \<notin> set Object_prototype_names)"

fun is_string :: "jsval \<Rightarrow> bool" where
  "is_string (JPrim (PStr s)) = True"
| "is_string other = False"

fun string_array :: "jsval \<Rightarrow> bool" where
  "string_array (JArr ts) = list_all is_string ts"
| "string_array other = False"

definition tags_typed :: "jsval \<Rightarrow> bool" where
  "tags_typed operation =
     (\<not> (truthy operation \<and> truthy (get_prop operation ''tags''))
      \<or> string_array (get_prop operation ''tags''))"

fun path_item_typed :: "jsval \<Rightarrow> bool" where
  "path_item_typed (JObj ms) =
     (distinct (map fst ms) \<and> list_all ordinary_key (map fst ms)
      \<and> list_all (\<lambda>kv. tags_typed (snd kv)) ms)"
| "path_item_typed other = False"

fun paths_typed :: "jsval \<Rightarrow> bool" where
  "paths_typed (JObj ps) =
     (distinct (map fst ps) \<and> list_all ordinary_key (map fst ps)
      \<and> list_all (\<lambda>kv. path_item_typed (snd kv)) ps)"
| "paths_typed other = (\<not> truthy other)"

fun conforms :: "jsval \<Rightarrow> bool" where
  "conforms (JObj kvs) = paths_typed (get_prop (JObj kvs) ''paths'')"
| "conforms other = False"

text \<open>The stored document of an adapter is the conforming document \<open>doc\<close>, at address \<open>a\<close>.\<close>

definition stores :: "store \<Rightarrow> knife4j_doc \<Rightarrow> addr \<Rightarrow> jsval \<Rightarrow> bool" where
  "stores \<sigma> this a doc =
     (swaggerJson this = VRef a \<and> a < length \<sigma> \<and> \<sigma> ! a = doc \<and> conforms doc)"

text \<open>The members of an object; an operation carries a tag when its tags array has it.\<close>

fun members :: "jsval \<Rightarrow> (string \<times> jsval) list" where
  "members (JObj kvs) = kvs"
| "members other = []"

definition carries :: "jsval \<Rightarrow> string \<Rightarrow> bool" where
  "carries operation g =
     (case get_prop operation ''tags'' of JArr ts \<Rightarrow> JStr g \<in> set ts | _ \<Rightarrow> False)"

text \<open>All tag strings that occur in the tags array of any operation under \<open>paths\<close>.\<close>

definition tags_under :: "jsval \<Rightarrow> string set" where
  "tags_under paths =
     {g. \<exists>item \<in> snd ` set (members paths). \<exists>operation \<in> snd ` set (members item). carries operation g}"

text \<open>One entry of the group list, and the list for given tags.\<close>

definition group_entry :: "string \<Rightarrow> string \<Rightarrow> jsval" where
  "group_entry prefix' tag =
     JObj [(''name'', JStr tag),
           (''location'', JStr (prefix' @ ''/api-docs/'' @ tag)),
           (''url'', JStr (prefix' @ ''/api-docs/'' @ tag)),
           (''swaggerVersion'', JStr ''3.0.0''),
           (''servicePath'', JStr [])]"

definition group_list :: "string \<Rightarrow> string list \<Rightarrow> jsval" where
  "group_list prefix' tags = JArr (group_entry prefix' all_label # map (group_entry prefix') tags)"

text \<open>
  The tag filter as the specification words it: keep the path, method and operation
  entries whose operation carries the tag; a path with no surviving method is absent.
\<close>

definition kept_methods :: "jsval \<Rightarrow> string \<Rightarrow> (string \<times> jsval) list" where
  "kept_methods item g = filter (\<lambda>kv. carries (snd kv) g) (members item)"

definition path_entry :: "string \<Rightarrow> (string \<times> jsval) list \<Rightarrow> (string \<times> jsval) list" where
  "path_entry p kept = (if kept = [] then [] else [(p, JObj kept)])"

definition filtered_paths :: "jsval \<Rightarrow> string \<Rightarrow> jsval" where
  "filtered_paths paths g =
     JObj (concat (map (\<lambda>kv. path_entry (fst kv) (kept_methods (snd kv) g)) (members paths)))"

subsection \<open>A small installation\<close>

definition demo_env :: node where
  "demo_env = \<lparr>process_cwd = ''/srv/app'', path_join = (\<lambda>a b. a @ ''/'' @ b)\<rparr>"

definition demo_op_X :: jsval where
  "demo_op_X = JObj [(''tags'', JArr [JStr ''X'']), (''summary'', JStr ''first'')]"

definition demo_op_Y :: jsval where
  "demo_op_Y = JObj [(''tags'', JArr [JStr ''Y''])]"

definition demo_doc :: jsval where
  "demo_doc = JObj [(''openapi'', JStr ''3.0.0''),
                    (''paths'', JObj [(''/a'', JObj [(''get'', demo_op_X)]),
                                      (''/b'', JObj [(''post'', demo_op_Y)])])]"

definition demo_doc_only_X :: jsval where
  "demo_doc_only_X = JObj [(''openapi'', JStr ''3.0.0''),
                           (''paths'', JObj [(''/a'', JObj [(''get'', demo_op_X)])])]"

definition demo_adapter :: knife4j_doc where
  "demo_adapter = \<lparr>swaggerJson = VRef 0, name = default_name\<rparr>"

definition null_adapter :: knife4j_doc where
  "null_adapter = fst (new_Knife4jDoc [] (VPrim PNull) None)"

text \<open>
  Requests as Express and Koa hand them over: \<^verbatim>\<open>url\<close> carries the query string, and
  \<^verbatim>\<open>query\<close> is that string parsed and decoded.
\<close>

definition plain_request :: "string \<Rightarrow> request" where
  "plain_request u = \<lparr>url = u, query = Map.empty\<rparr>"

definition request_X :: request where
  "request_X = \<lparr>url = ''/api-docs/X?groupName=X'', query = [''groupName'' \<mapsto> ''X'']\<rparr>"

definition request_Y :: request where
  "request_Y = \<lparr>url = ''/api-docs/Y?groupName=Y'', query = [''groupName'' \<mapsto> ''Y'']\<rparr>"

definition request_all :: request where
  "request_all = \<lparr>url = ''/api-docs/%E5%85%A8%E9%83%A8?groupName=%E5%85%A8%E9%83%A8'',
                   query = [''groupName'' \<mapsto> all_label]\<rparr>"

text \<open>A document outside the declared shape: the tags of its operation are a string.\<close>

definition untyped_doc :: jsval where
  "untyped_doc = JObj [(''paths'', JObj [(''/a'', JObj [(''get'', JObj [(''tags'', JStr ''X'')])])])]"

text \<open>
  Documents with a key that an object inherits: a method called \<^verbatim>\<open>hasOwnProperty\<close>, and a
  path called \<^verbatim>\<open>hasOwnProperty\<close> beside the path \<^verbatim>\<open>/b\<close>.
\<close>

definition shadowing_method_doc :: jsval where
  "shadowing_method_doc =
     JObj [(''paths'', JObj [(''/a'', JObj [(''hasOwnProperty'', demo_op_X)]),
                             (''/b'', JObj [(''post'', demo_op_Y)])])]"

definition shadowing_path_doc :: jsval where
  "shadowing_path_doc =
     JObj [(''paths'', JObj [(''hasOwnProperty'', JObj [(''get'', demo_op_X)]),
                             (''/b'', JObj [(''post'', demo_op_Y)])])]"

section \<open>Facts about the model\<close>

subsection \<open>Assignment and lookup\<close>

lemma assign_fresh: "k \<notin> fst ` set acc \<Longrightarrow> assign acc k v = acc @ [(k, v)]"
  by (induction acc) auto

lemma assign_last: "k \<notin> fst ` set acc \<Longrightarrow> assign (acc @ [(k, w)]) k v = acc @ [(k, v)]"
  by (induction acc) auto

lemma lookup_fresh: "k \<notin> fst ` set acc \<Longrightarrow> lookup_or_undefined acc k = JUndefined"
proof -
  assume "k \<notin> fst ` set acc"
  then have "map_of acc k = None" by (simp add: map_of_eq_None_iff)
  then show ?thesis by (simp add: lookup_or_undefined_def)
qed

lemma lookup_last: "k \<notin> fst ` set acc \<Longrightarrow> lookup_or_undefined (acc @ [(k, w)]) k = w"
  by (simp add: lookup_or_undefined_def map_add_def map_of_eq_None_iff split: option.splits)
     (metis domI domIff dom_map_of_conv_image_fst)

lemma lookup_member: "distinct (map fst kvs) \<Longrightarrow> (k, v) \<in> set kvs \<Longrightarrow> lookup_or_undefined kvs k = v"
  by (simp add: lookup_or_undefined_def)

lemma lookup_assign: "lookup_or_undefined (assign kvs k v) k = v"
  by (induction kvs) (auto simp: lookup_or_undefined_def)

lemma lookup_assign_other: "k' \<noteq> k \<Longrightarrow> lookup_or_undefined (assign kvs k v) k' = lookup_or_undefined kvs k'"
  by (induction kvs) (auto simp: lookup_or_undefined_def)

subsection \<open>The JSON round trip\<close>

lemma roundtrip_all:
  "(serializable t \<longrightarrow> (\<exists>j. JSON_stringify t = Some j \<and> JSON_parse j = t))"
  "(serializable_elements xs \<longrightarrow> parse_elements (stringify_elements xs) = xs)"
  "(serializable_members kvs \<longrightarrow> (\<forall>acc. distinct (map fst kvs) \<longrightarrow> fst ` set kvs \<inter> fst ` set acc = {}
       \<longrightarrow> parse_members (stringify_members kvs) acc = acc @ kvs))"
proof (induction t and xs and kvs rule: serializable_serializable_elements_serializable_members.induct)
  case (10 k v kvs)
  show ?case
  proof (intro impI allI)
    fix acc :: "(string \<times> jsval) list"
    assume s: "serializable_members ((k, v) # kvs)" and d: "distinct (map fst ((k, v) # kvs))"
      and i: "fst ` set ((k, v) # kvs) \<inter> fst ` set acc = {}"
    from s 10 obtain j where j: "JSON_stringify v = Some j" "JSON_parse j = v" by auto
    have k: "k \<notin> fst ` set acc" using i by auto
    have "fst ` set kvs \<inter> fst ` set (acc @ [(k, v)]) = {}" using i d by auto
    with s d 10 have "parse_members (stringify_members kvs) (acc @ [(k, v)]) = (acc @ [(k, v)]) @ kvs"
      by simp
    then show "parse_members (stringify_members ((k, v) # kvs)) acc = acc @ (k, v) # kvs"
      using j k by (simp add: assign_fresh)
  qed
qed auto

lemma JSON_parse_stringify: "serializable t \<Longrightarrow> \<exists>j. JSON_stringify t = Some j \<and> JSON_parse j = t"
  using roundtrip_all(1) by blast

lemma JSON_roundtrip_object:
  assumes "is_object \<sigma> v"
  shows "\<exists>a j. v = VRef a \<and> a < length \<sigma> \<and> JSON_stringify (\<sigma> ! a) = Some j
           \<and> JSON_roundtrip \<sigma> v = Inr (VRef (length \<sigma>), \<sigma> @ [JSON_parse j])
           \<and> (\<forall>\<sigma>'. new_value \<sigma>' (JSON_parse j) = (VRef (length \<sigma>'), \<sigma>' @ [JSON_parse j]))
           \<and> (\<exists>t. JSON_stringify (JSON_parse j) = Some t)"
proof (cases v)
  case (VPrim p)
  with assms show ?thesis by simp
next
  case (VRef a)
  with assms have a: "a < length \<sigma>" and c: "case \<sigma> ! a of JPrim p \<Rightarrow> False | _ \<Rightarrow> True" by simp_all
  show ?thesis
  proof (cases "\<sigma> ! a")
    case (JPrim p) with c show ?thesis by simp
  next
    case (JArr xs)
    with VRef a show ?thesis by (simp add: JSON_roundtrip_def)
  next
    case (JObj kvs)
    with VRef a show ?thesis by (simp add: JSON_roundtrip_def)
  qed
qed

lemma is_object_guard: "is_object \<sigma> v \<Longrightarrow> truthy_val v \<and> typeof v = ''object''"
  by (cases v) auto

lemma swagger_not_services: "P @ ''/swagger.json'' \<noteq> ''/services.json''"
  by (cases P; simp)

subsection \<open>The tag scan\<close>

lemma foldl_Set_add_set: "set (foldl Set_add U ts) = set U \<union> set ts"
  by (induction ts arbitrary: U) (auto simp: Set_add_def)

lemma foldl_Set_add_distinct: "distinct U \<Longrightarrow> distinct (foldl Set_add U ts)"
  by (induction ts arbitrary: U) (auto simp: Set_add_def)

lemma string_array_elems: "string_array t \<Longrightarrow> \<exists>ts. t = JArr ts \<and> list_all is_string ts"
  by (cases t) auto

lemma falsy_no_tags: "\<not> truthy operation \<Longrightarrow> get_prop operation ''tags'' = JUndefined"
proof (cases operation)
  case (JPrim p)
  assume "\<not> truthy operation"
  with JPrim show ?thesis
    by (cases p) (auto simp: indexed_def lookup_or_undefined_def)
qed auto

lemma carries_iff:
  assumes "tags_typed operation"
  shows "carries operation g \<longleftrightarrow> (truthy operation \<and> truthy (get_prop operation ''tags'')
        \<and> tags_includes (get_prop operation ''tags'') g = Inr True)"
proof (cases "truthy operation \<and> truthy (get_prop operation ''tags'')")
  case True
  with assms have "string_array (get_prop operation ''tags'')" by (simp add: tags_typed_def)
  then obtain ts where "get_prop operation ''tags'' = JArr ts" using string_array_elems by blast
  with True show ?thesis by (simp add: carries_def)
next
  case False
  then have "\<not> carries operation g"
    using falsy_no_tags [of operation]
    by (cases "get_prop operation ''tags''") (auto simp: carries_def)
  with False show ?thesis by blast
qed

lemma no_tags_carried:
  assumes "\<not> (truthy operation \<and> truthy (get_prop operation ''tags''))"
  shows "\<not> carries operation g"
proof (cases "truthy operation")
  case False
  then show ?thesis using falsy_no_tags [of operation] by (simp add: carries_def)
next
  case True
  with assms have "\<not> truthy (get_prop operation ''tags'')" by simp
  then show ?thesis by (cases "get_prop operation ''tags''") (auto simp: carries_def)
qed

lemma strings_of_string_array:
  "list_all is_string ts \<Longrightarrow>
     \<exists>strings. those (map string_of ts) = Some strings \<and> set strings = {g. JStr g \<in> set ts}"
proof (induction ts)
  case Nil
  then show ?case by simp
next
  case (Cons t ts)
  then obtain s where t: "t = JStr s" by (cases t rule: is_string.cases) auto
  from Cons obtain strings where
    "those (map string_of ts) = Some strings" "set strings = {g. JStr g \<in> set ts}"
    by auto
  with t show ?case by auto
qed

lemma ordinary_keys_own:
  assumes "list_all ordinary_key (map fst ms)"
  shows "''hasOwnProperty'' \<notin> set (map fst ms)" "''__proto__'' \<notin> set (map fst ms)"
    "(m, v) \<in> set ms \<Longrightarrow> ordinary_key m"
  using assms by (auto simp: list_all_iff ordinary_key_def Object_prototype_names_def)

lemma hasOwnProperty_member:
  assumes "list_all ordinary_key (map fst ms)" and "(m, v) \<in> set ms"
  shows "hasOwnProperty (JObj ms) m = Inr True"
  using ordinary_keys_own(1) [OF assms(1)] assms(2) by (auto intro: rev_image_eqI)

lemma path_item_typed_elems:
  "path_item_typed item \<Longrightarrow>
     \<exists>ms. item = JObj ms \<and> distinct (map fst ms) \<and> list_all (\<lambda>kv. tags_typed (snd kv)) ms
        \<and> list_all ordinary_key (map fst ms)"
  by (cases item) auto

lemma scan_methods_run:
  assumes ms: "distinct (map fst ms)" "list_all (\<lambda>kv. tags_typed (snd kv)) ms"
    and keys: "list_all ordinary_key (map fst ms)"
  shows "set ks \<subseteq> set ms \<Longrightarrow>
     \<exists>U'. scan_methods (JObj ms) (map fst ks) U = Inr U'
        \<and> set U' = set U \<union> {g. \<exists>kv \<in> set ks. carries (snd kv) g}
        \<and> (distinct U \<longrightarrow> distinct U')"
proof (induction ks arbitrary: U)
  case Nil
  then show ?case by simp
next
  case (Cons kv ks)
  obtain m operation where kv: "kv = (m, operation)" by (cases kv)
  from Cons.prems kv have mem: "(m, operation) \<in> set ms" and sub: "set ks \<subseteq> set ms" by simp_all
  have own: "hasOwnProperty (JObj ms) m = Inr True"
    using keys mem by (rule hasOwnProperty_member)
  have get: "get_prop (JObj ms) m = operation"
    using lookup_member [OF ms(1) mem] by simp
  have typed: "tags_typed operation"
    using ms(2) mem by (auto simp: list_all_iff)
  show ?case
  proof (cases "truthy operation \<and> truthy (get_prop operation ''tags'')")
    case True
    with typed have "string_array (get_prop operation ''tags'')" by (simp add: tags_typed_def)
    then obtain ts where ts: "get_prop operation ''tags'' = JArr ts" "list_all is_string ts"
      using string_array_elems by blast
    from strings_of_string_array [OF ts(2)] obtain strings where strings:
      "those (map string_of ts) = Some strings" "set strings = {g. JStr g \<in> set ts}"
      by blast
    let ?U1 = "foldl Set_add U strings"
    from Cons.IH [OF sub, of ?U1] obtain U' where U':
      "scan_methods (JObj ms) (map fst ks) ?U1 = Inr U'"
      "set U' = set ?U1 \<union> {g. \<exists>kv \<in> set ks. carries (snd kv) g}"
      "distinct ?U1 \<longrightarrow> distinct U'"
      by blast
    have run: "scan_methods (JObj ms) (map fst (kv # ks)) U = Inr U'"
      using kv own get True ts strings(1) U'(1)
      by (simp del: get_prop.simps hasOwnProperty.simps)
    have "set strings = {g. carries operation g}"
      using strings(2) ts(1) by (simp add: carries_def)
    then have sets: "set U' = set U \<union> {g. \<exists>kv \<in> set (kv # ks). carries (snd kv) g}"
      using U'(2) kv by (auto simp: foldl_Set_add_set)
    with run U'(3) show ?thesis
      by (auto simp: foldl_Set_add_distinct)
  next
    case False
    from Cons.IH [OF sub, of U] obtain U' where U':
      "scan_methods (JObj ms) (map fst ks) U = Inr U'"
      "set U' = set U \<union> {g. \<exists>kv \<in> set ks. carries (snd kv) g}"
      "distinct U \<longrightarrow> distinct U'"
      by blast
    have run: "scan_methods (JObj ms) (map fst (kv # ks)) U = Inr U'"
      using kv own get False U'(1) by (auto simp del: get_prop.simps hasOwnProperty.simps)
    have "set U' = set U \<union> {g. \<exists>kv \<in> set (kv # ks). carries (snd kv) g}"
      using U'(2) kv no_tags_carried [OF False] by auto
    with run U'(3) show ?thesis by blast
  qed
qed

lemma scan_paths_run:
  assumes ps: "distinct (map fst ps)" "list_all (\<lambda>kv. path_item_typed (snd kv)) ps"
    and keys: "list_all ordinary_key (map fst ps)"
  shows "set ks \<subseteq> set ps \<Longrightarrow>
     \<exists>U'. scan_paths (JObj ps) (map fst ks) U = Inr U'
        \<and> set U' = set U \<union> {g. \<exists>kv \<in> set ks. \<exists>operation \<in> snd ` set (members (snd kv)). carries operation g}
        \<and> (distinct U \<longrightarrow> distinct U')"
proof (induction ks arbitrary: U)
  case Nil
  then show ?case by simp
next
  case (Cons kv ks)
  obtain p item where kv: "kv = (p, item)" by (cases kv)
  from Cons.prems kv have mem: "(p, item) \<in> set ps" and sub: "set ks \<subseteq> set ps" by simp_all
  have own: "hasOwnProperty (JObj ps) p = Inr True"
    using keys mem by (rule hasOwnProperty_member)
  have get: "get_prop (JObj ps) p = item"
    using lookup_member [OF ps(1) mem] by simp
  from ps(2) mem have "path_item_typed item" by (auto simp: list_all_iff)
  then obtain ms where item: "item = JObj ms" and ms: "distinct (map fst ms)"
    "list_all (\<lambda>kv. tags_typed (snd kv)) ms" and mkeys: "list_all ordinary_key (map fst ms)"
    using path_item_typed_elems by blast
  from scan_methods_run [OF ms mkeys, of ms U] obtain U1 where U1:
    "scan_methods (JObj ms) (map fst ms) U = Inr U1"
    "set U1 = set U \<union> {g. \<exists>kv \<in> set ms. carries (snd kv) g}"
    "distinct U \<longrightarrow> distinct U1"
    by auto
  from Cons.IH [OF sub, of U1] obtain U' where U':
    "scan_paths (JObj ps) (map fst ks) U1 = Inr U'"
    "set U' = set U1 \<union> {g. \<exists>kv \<in> set ks. \<exists>operation \<in> snd ` set (members (snd kv)). carries operation g}"
    "distinct U1 \<longrightarrow> distinct U'"
    by blast
  have run: "scan_paths (JObj ps) (map fst (kv # ks)) U = Inr U'"
    using kv own get item U1(1) U'(1) by (simp del: get_prop.simps hasOwnProperty.simps)
  have split: "{g. \<exists>kv \<in> set (kv # ks). \<exists>operation \<in> snd ` set (members (snd kv)). carries operation g}
      = {g. \<exists>kv \<in> set ms. carries (snd kv) g}
        \<union> {g. \<exists>kv \<in> set ks. \<exists>operation \<in> snd ` set (members (snd kv)). carries operation g}"
    using kv item by auto
  have "set U' = set U \<union> {g. \<exists>kv \<in> set (kv # ks). \<exists>operation \<in> snd ` set (members (snd kv)). carries operation g}"
    unfolding split using U'(2) U1(2) by (simp only: Un_assoc)
  with run U1(3) U'(3) show ?case by blast
qed

lemma collect_uniqueTags_conforming:
  assumes "paths_typed (get_prop doc ''paths'')"
  shows "\<exists>tags. collect_uniqueTags doc = Inr tags \<and> distinct tags
           \<and> set tags = tags_under (get_prop doc ''paths'')"
proof (cases "get_prop doc ''paths''")
  case (JPrim p)
  with assms have "collect_uniqueTags doc = Inr []"
    by (simp add: collect_uniqueTags_def)
  moreover have "tags_under (get_prop doc ''paths'') = {}"
    using JPrim by (simp add: tags_under_def)
  ultimately show ?thesis by (intro exI [of _ "[]"]) simp
next
  case (JArr xs)
  with assms show ?thesis by simp
next
  case (JObj ps)
  with assms have ps: "distinct (map fst ps)" "list_all (\<lambda>kv. path_item_typed (snd kv)) ps"
    and keys: "list_all ordinary_key (map fst ps)"
    by simp_all
  from scan_paths_run [OF ps keys, of ps "[]"] obtain U where U:
    "scan_paths (JObj ps) (map fst ps) [] = Inr U"
    "set U = {g. \<exists>kv \<in> set ps. \<exists>operation \<in> snd ` set (members (snd kv)). carries operation g}"
    "distinct U"
    by auto
  have run: "collect_uniqueTags doc = Inr U"
    using JObj U(1) by (simp add: collect_uniqueTags_def)
  have "set U = tags_under (get_prop doc ''paths'')"
    using U(2) JObj by (auto simp: tags_under_def)
  with run U(3) show ?thesis by blast
qed

lemma build_groups_strings: "build_groups P tags = group_list P tags"
  by (simp add: build_groups_def group_list_def group_entry_def)

subsection \<open>The tag filter\<close>

lemma filter_methods_run:
  assumes ms: "distinct (map fst ms)" "list_all (\<lambda>kv. tags_typed (snd kv)) ms"
    and keys: "list_all ordinary_key (map fst ms)"
    and p: "p \<notin> fst ` set acc" "ordinary_key p"
  shows "set ks \<subseteq> set ms \<Longrightarrow> distinct (map fst ks) \<Longrightarrow> fst ` set cur \<inter> fst ` set ks = {} \<Longrightarrow>
     filter_methods (JObj ms) p g (map fst ks) (JObj (acc @ path_entry p cur))
       = Inr (JObj (acc @ path_entry p (cur @ filter (\<lambda>kv. carries (snd kv) g) ks)))"
proof (induction ks arbitrary: cur)
  case Nil
  then show ?case by simp
next
  case (Cons kv ks)
  obtain m operation where kv: "kv = (m, operation)" by (cases kv)
  from Cons.prems kv have mem: "(m, operation) \<in> set ms" by simp
  have own: "hasOwnProperty (JObj ms) m = Inr True"
    using keys mem by (rule hasOwnProperty_member)
  have plain: "\<not> inherited G p" "m \<noteq> ''__proto__''" for G
    using p(2) ordinary_keys_own(2) [OF keys] mem
    by (auto simp: inherited_def ordinary_key_def intro: rev_image_eqI)
  have get: "get_prop (JObj ms) m = operation"
    using lookup_member [OF ms(1) mem] by simp
  have typed: "tags_typed operation"
    using ms(2) mem by (auto simp: list_all_iff)
  have sub: "set ks \<subseteq> set ms" and dist: "distinct (map fst ks)" and mks: "m \<notin> fst ` set ks"
    and mcur: "m \<notin> fst ` set cur" and disj: "fst ` set cur \<inter> fst ` set ks = {}"
    using Cons.prems kv by auto
  show ?case
  proof (cases "carries operation g")
    case True
    then have hit: "truthy operation" "truthy (get_prop operation ''tags'')"
      "tags_includes (get_prop operation ''tags'') g = Inr True"
      using carries_iff [OF typed] by simp_all
    have cur_now: "(if truthy (get_prop (JObj (acc @ path_entry p cur)) p)
                    then get_prop (JObj (acc @ path_entry p cur)) p else JObj []) = JObj cur"
      using p(1) by (simp add: path_entry_def lookup_fresh lookup_last)
    have g1: "set_prop (JObj (acc @ path_entry p cur)) p (JObj cur) = JObj (acc @ [(p, JObj cur)])"
      using p(1) by (simp add: path_entry_def assign_fresh assign_last)
    have g2: "set_prop (JObj (acc @ [(p, JObj cur)])) p
                (set_prop (get_prop (JObj (acc @ [(p, JObj cur)])) p) m operation)
              = JObj (acc @ path_entry p (cur @ [(m, operation)]))"
      using p(1) mcur by (simp add: path_entry_def assign_fresh assign_last lookup_last)
    have "fst ` set (cur @ [(m, operation)]) \<inter> fst ` set ks = {}"
      using disj mks by auto
    from Cons.IH [OF sub dist this] show ?thesis
      using kv own plain get hit True
      by (simp add: cur_now g1 g2 del: set_prop.simps get_prop.simps hasOwnProperty.simps)
  next
    case False
    have skip: "\<not> (truthy operation \<and> truthy (get_prop operation ''tags''))
                \<or> tags_includes (get_prop operation ''tags'') g = Inr False"
    proof (cases "truthy operation \<and> truthy (get_prop operation ''tags'')")
      case True
      with typed have "string_array (get_prop operation ''tags'')" by (simp add: tags_typed_def)
      then obtain ts where ts: "get_prop operation ''tags'' = JArr ts" using string_array_elems by blast
      with False show ?thesis by (simp add: carries_def)
    qed simp
    from Cons.IH [OF sub dist disj] show ?thesis
      using kv own get False skip
      by (auto simp del: set_prop.simps get_prop.simps hasOwnProperty.simps)
  qed
qed


lemma filter_paths_run:
  assumes ps: "distinct (map fst ps)" "list_all (\<lambda>kv. path_item_typed (snd kv)) ps"
    and keys: "list_all ordinary_key (map fst ps)"
  shows "set ks \<subseteq> set ps \<Longrightarrow> distinct (map fst ks) \<Longrightarrow> fst ` set acc \<inter> fst ` set ks = {} \<Longrightarrow>
     filter_paths (JObj ps) g (map fst ks) (JObj acc)
       = Inr (JObj (acc @ concat (map (\<lambda>kv. path_entry (fst kv) (kept_methods (snd kv) g)) ks)))"
proof (induction ks arbitrary: acc)
  case Nil
  then show ?case by simp
next
  case (Cons kv ks)
  obtain p item where kv: "kv = (p, item)" by (cases kv)
  from Cons.prems kv have mem: "(p, item) \<in> set ps" by simp
  have own: "hasOwnProperty (JObj ps) p = Inr True"
    using keys mem by (rule hasOwnProperty_member)
  have pkey: "ordinary_key p"
    using keys mem by (rule ordinary_keys_own(3))
  have get: "get_prop (JObj ps) p = item"
    using lookup_member [OF ps(1) mem] by simp
  from ps(2) mem have "path_item_typed item" by (auto simp: list_all_iff)
  then obtain ms where item: "item = JObj ms" and ms: "distinct (map fst ms)"
    "list_all (\<lambda>kv. tags_typed (snd kv)) ms" and mkeys: "list_all ordinary_key (map fst ms)"
    using path_item_typed_elems by blast
  have sub: "set ks \<subseteq> set ps" and dist: "distinct (map fst ks)" and pks: "p \<notin> fst ` set ks"
    and pacc: "p \<notin> fst ` set acc" and disj: "fst ` set acc \<inter> fst ` set ks = {}"
    using Cons.prems kv by auto
  have inner: "filter_methods (JObj ms) p g (map fst ms) (JObj acc)
                 = Inr (JObj (acc @ path_entry p (kept_methods item g)))"
    using filter_methods_run [OF ms mkeys pacc pkey, of ms "[]" g] item ms(1)
    by (simp add: kept_methods_def path_entry_def)
  have "fst ` set (acc @ path_entry p (kept_methods item g)) \<inter> fst ` set ks = {}"
    using disj pks by (auto simp: path_entry_def)
  from Cons.IH [OF sub dist this] show ?case
    using kv own get item inner by (simp del: get_prop.simps hasOwnProperty.simps)
qed

lemma build_groupPaths_filtered:
  assumes "paths_typed paths"
  shows "build_groupPaths paths g = Inr (filtered_paths paths g)"
proof (cases paths)
  case (JPrim p)
  with assms show ?thesis by (simp add: build_groupPaths_def filtered_paths_def)
next
  case (JArr xs)
  with assms show ?thesis by simp
next
  case (JObj ps)
  with assms have ps: "distinct (map fst ps)" "list_all (\<lambda>kv. path_item_typed (snd kv)) ps"
    and keys: "list_all ordinary_key (map fst ps)"
    by simp_all
  from filter_paths_run [OF ps keys, of ps "[]" g] JObj ps(1) show ?thesis
    by (simp add: build_groupPaths_def filtered_paths_def)
qed

lemma filtered_paths_keys:
  "set (own_keys (filtered_paths paths g))
     = {p. \<exists>item. (p, item) \<in> set (members paths) \<and> kept_methods item g \<noteq> []}"
  by (auto simp: filtered_paths_def path_entry_def split: if_splits) force

lemma path_entries_keys:
  "fst ` set (concat (map (\<lambda>kv. path_entry (fst kv) (f kv)) kvs)) \<subseteq> fst ` set kvs"
  by (force simp: path_entry_def split: if_splits)

lemma path_entries_distinct:
  "distinct (map fst kvs) \<Longrightarrow> distinct (map fst (concat (map (\<lambda>kv. path_entry (fst kv) (f kv)) kvs)))"
proof (induction kvs)
  case Nil
  then show ?case by simp
next
  case (Cons kv kvs)
  have "fst kv \<notin> fst ` set (concat (map (\<lambda>kv. path_entry (fst kv) (f kv)) kvs))"
    using Cons.prems path_entries_keys [of f kvs] by auto
  with Cons show ?case by (auto simp: path_entry_def)
qed

lemma filtered_paths_entry:
  assumes "distinct (map fst (members paths))" and "(p, item) \<in> set (members paths)"
    and "kept_methods item g \<noteq> []"
  shows "get_prop (filtered_paths paths g) p = JObj (kept_methods item g)"
proof -
  let ?es = "concat (map (\<lambda>kv. path_entry (fst kv) (kept_methods (snd kv) g)) (members paths))"
  have d: "distinct (map fst ?es)"
    using assms(1) by (rule path_entries_distinct)
  have "(p, JObj (kept_methods item g)) \<in> set ?es"
    using assms(2,3) by (force simp: path_entry_def)
  from lookup_member [OF d this] show ?thesis by (simp add: filtered_paths_def)
qed

subsection \<open>The legacy handler on a conforming document\<close>

lemma conforms_object: "conforms doc \<Longrightarrow> \<exists>kvs. doc = JObj kvs \<and> paths_typed (get_prop doc ''paths'')"
  by (cases doc) auto

lemma get_set_prop: "get_prop (set_prop (JObj kvs) k v) k = v"
  by (simp add: lookup_assign)

lemma api_docs_not_exact:
  "prefix ''/api-docs/'' u \<Longrightarrow> u \<noteq> ''/v3/api-docs/swagger-config'' \<and> u \<noteq> ''/swagger-resources''"
  by auto

lemma legacy_guard:
  assumes "stores \<sigma> this a doc"
  shows "truthy_val (swaggerJson this)" "typeof (swaggerJson this) = ''object''"
    "deref \<sigma> (swaggerJson this) = Inr doc"
    "assign_field \<sigma> (swaggerJson this) k v = Inr (\<sigma>[a := set_prop doc k v])"
  using assms by (simp_all add: stores_def)

lemma legacy_filter_response:
  assumes st: "stores \<sigma> this a doc"
    and url: "prefix ''/api-docs/'' (url req)"
    and g: "groupName_of (query req) \<noteq> all_label"
  shows "legacy_serveExpress this P req res \<sigma> =
           Inr \<lparr>heap = \<sigma>[a := set_prop doc ''paths''
                          (filtered_paths (get_prop doc ''paths'') (groupName_of (query req)))],
                out = res\<lparr>sent := Some (VRef a)\<rparr>, next_calls = 0, console = []\<rparr>"
proof -
  from st have "conforms doc" and ref: "swaggerJson this = VRef a" by (simp_all add: stores_def)
  then have "paths_typed (get_prop doc ''paths'')" using conforms_object by blast
  then have "build_groupPaths (get_prop doc ''paths'') (groupName_of (query req))
               = Inr (filtered_paths (get_prop doc ''paths'') (groupName_of (query req)))"
    by (rule build_groupPaths_filtered)
  then show ?thesis
    using legacy_guard [OF st] api_docs_not_exact [OF url] url g ref
    by (simp add: legacy_serveExpress_def Let_def del: get_prop.simps set_prop.simps)
qed

lemma legacy_all_response:
  assumes st: "stores \<sigma> this a doc"
    and url: "prefix ''/api-docs/'' (url req)"
    and g: "groupName_of (query req) = all_label"
  shows "legacy_serveExpress this P req res \<sigma> =
           Inr \<lparr>heap = \<sigma>, out = res\<lparr>sent := Some (VRef a)\<rparr>, next_calls = 0, console = []\<rparr>"
proof -
  from st have ref: "swaggerJson this = VRef a" by (simp add: stores_def)
  show ?thesis
    using legacy_guard [OF st] api_docs_not_exact [OF url] url g ref
    by (simp add: legacy_serveExpress_def Let_def del: get_prop.simps set_prop.simps)
qed

lemma sent_content_filter:
  assumes st: "stores \<sigma> this a doc"
    and url: "prefix ''/api-docs/'' (url req)"
    and g: "groupName_of (query req) \<noteq> all_label"
  shows "\<exists>D. sent_content (legacy_serveExpress this P req res \<sigma>) = Some D
           \<and> get_prop D ''paths'' = filtered_paths (get_prop doc ''paths'') (groupName_of (query req))"
proof -
  from st have a: "a < length \<sigma>" and "conforms doc" by (simp_all add: stores_def)
  then obtain kvs where doc: "doc = JObj kvs" using conforms_object by blast
  show ?thesis
    unfolding legacy_filter_response [OF st url g]
    using a doc by (simp add: sent_content_def lookup_assign)
qed

lemma lookup_found:
  "lookup_or_undefined kvs k \<noteq> JUndefined \<Longrightarrow> (k, lookup_or_undefined kvs k) \<in> set kvs"
  by (auto simp: lookup_or_undefined_def split: option.splits dest: map_of_SomeD)

lemma legacy_config_response:
  assumes st: "stores \<sigma> this a doc"
    and tags: "collect_uniqueTags doc = Inr tags"
    and url: "url req = ''/v3/api-docs/swagger-config''"
  shows "legacy_serveExpress this P req res \<sigma> =
           Inr \<lparr>heap = \<sigma>[a := set_prop doc ''urls'' (group_list P tags)],
                out = res\<lparr>headers := headers res @ [(''Content-Type'', ''application/json'')],
                          sent := Some (VRef a)\<rparr>,
                next_calls = 0, console = []\<rparr>"
proof -
  from st have ref: "swaggerJson this = VRef a" by (simp add: stores_def)
  show ?thesis
    using legacy_guard [OF st] tags url ref
    by (simp add: legacy_serveExpress_def Let_def build_groups_strings del: set_prop.simps)
qed

lemma legacy_resources_response:
  assumes st: "stores \<sigma> this a doc"
    and tags: "collect_uniqueTags doc = Inr tags"
    and url: "url req = ''/swagger-resources''"
  shows "legacy_serveExpress this P req res \<sigma> =
           Inr \<lparr>heap = \<sigma> @ [group_list P tags], out = res\<lparr>sent := Some (VRef (length \<sigma>))\<rparr>,
                next_calls = 0, console = []\<rparr>"
proof -
  have nv: "new_value \<sigma> (group_list P tags) = (VRef (length \<sigma>), \<sigma> @ [group_list P tags])"
    by (simp add: group_list_def)
  show ?thesis
    using legacy_guard [OF st] tags url nv
    by (simp add: legacy_serveExpress_def Let_def build_groups_strings)
qed

subsection \<open>The current handler leaves the store as it was\<close>

lemma falsy_no_props: "\<not> truthy v \<Longrightarrow> k \<noteq> ''length'' \<Longrightarrow> get_prop v k = JUndefined"
proof (cases v)
  case (JPrim p)
  assume "\<not> truthy v" and "k \<noteq> ''length''"
  with JPrim show ?thesis
    by (cases p) (auto simp: indexed_def lookup_or_undefined_def)
qed auto

lemma new_value_extends:
  assumes "new_value \<sigma> t = (v, \<sigma>')" and "a < length \<sigma>"
  shows "a < length \<sigma>' \<and> \<sigma>' ! a = \<sigma> ! a"
  using assms by (cases t) (auto simp: nth_append)

lemma serveExpress_keeps_store:
  assumes "serveExpress env this P req res \<sigma> = Inr r" and "a < length \<sigma>"
  shows "heap r ! a = \<sigma> ! a"
proof (cases "\<not> truthy_val (swaggerJson this) \<or> typeof (swaggerJson this) \<noteq> ''object''")
  case True
  with assms show ?thesis by (auto simp: serveExpress_def nth_append)
next
  case False
  then obtain b where "swaggerJson this = VRef b"
    by (cases "swaggerJson this" rule: typeof.cases) auto
  with assms False show ?thesis
    by (auto simp: serveExpress_def JSON_roundtrip_def nth_append Let_def
        split: sum.splits option.splits if_splits prod.splits
        dest: new_value_extends)
qed

subsection \<open>The tag filter on any document of the declared shape\<close>

text \<open>
  The scenario of two tagged paths inside a larger document: an operation tagged
  \<^verbatim>\<open>["X"]\<close> under \<^verbatim>\<open>/a\<close> is kept, and \<^verbatim>\<open>/b\<close> is dropped when all its operations are
  tagged \<^verbatim>\<open>["Y"]\<close>, whatever else the document holds.
\<close>

lemma legacy_filter_keeps_tagged_drops_untagged:
  assumes st: "stores \<sigma> this a doc"
    and a: "(m, operation) \<in> set (members (get_prop (get_prop doc ''paths'') ''/a''))"
           "get_prop operation ''tags'' = JArr [JStr ''X'']"
    and b: "''/b'' \<in> set (own_keys (get_prop doc ''paths''))"
           "list_all (\<lambda>kv. get_prop (snd kv) ''tags'' = JArr [JStr ''Y''])
              (members (get_prop (get_prop doc ''paths'') ''/b''))"
    and reqX: "prefix ''/api-docs/X'' (url reqX)" "query reqX ''groupName'' = Some ''X''"
    and reqAll: "prefix ''/api-docs/'' (url reqAll)" "query reqAll ''groupName'' = Some all_label"
  shows "(\<exists>D. sent_content (legacy_serveExpress this P reqX res \<sigma>) = Some D
            \<and> ''/a'' \<in> set (own_keys (get_prop D ''paths''))
            \<and> (m, operation) \<in> set (members (get_prop (get_prop D ''paths'') ''/a''))
            \<and> ''/b'' \<notin> set (own_keys (get_prop D ''paths'')))
       \<and> sent_content (legacy_serveExpress this P reqAll res \<sigma>) = Some doc
       \<and> ''/a'' \<in> set (own_keys (get_prop doc ''paths''))
       \<and> ''/b'' \<in> set (own_keys (get_prop doc ''paths''))"
proof -
  let ?paths = "get_prop doc ''paths''"
  from st have conf: "conforms doc" and len: "a < length \<sigma>" by (simp_all add: stores_def)
  then have typed: "paths_typed ?paths" using conforms_object by blast
  have "truthy ?paths"
  proof (rule ccontr)
    assume "\<not> truthy ?paths"
    then have "get_prop ?paths ''/a'' = JUndefined" by (rule falsy_no_props) simp
    with a(1) show False by simp
  qed
  with typed obtain ps where ps: "?paths = JObj ps"
    by (cases ?paths) auto
  with typed have d: "distinct (map fst ps)" by simp
  let ?item = "get_prop ?paths ''/a''"
  from a(1) have "?item \<noteq> JUndefined" by auto
  with ps have in_a: "(''/a'', ?item) \<in> set ps" using lookup_found [of ps "''/a''"] by simp
  have car: "carries operation ''X''" using a(2) by (simp add: carries_def)
  with a(1) have kept: "(m, operation) \<in> set (kept_methods ?item ''X'')"
    by (simp add: kept_methods_def)
  then have ne: "kept_methods ?item ''X'' \<noteq> []" by auto
  have gX: "groupName_of (query reqX) = ''X''" using reqX(2) by (simp add: groupName_of_def)
  then have gX': "groupName_of (query reqX) \<noteq> all_label" by (simp add: all_label_def)
  have "prefix ''/api-docs/'' ''/api-docs/X''" by simp
  from this reqX(1) have pX: "prefix ''/api-docs/'' (url reqX)" by (rule prefix_order.trans)
  from sent_content_filter [OF st pX gX'] gX obtain D where
    D: "sent_content (legacy_serveExpress this P reqX res \<sigma>) = Some D"
       "get_prop D ''paths'' = filtered_paths ?paths ''X''"
    by auto
  have keyA: "''/a'' \<in> set (own_keys (filtered_paths ?paths ''X''))"
    using in_a ne ps by (auto simp: filtered_paths_keys)
  have entA: "get_prop (filtered_paths ?paths ''X'') ''/a'' = JObj (kept_methods ?item ''X'')"
    using filtered_paths_entry [of ?paths "''/a''" ?item "''X''"] d in_a ne ps by simp
  have noB: "''/b'' \<notin> set (own_keys (filtered_paths ?paths ''X''))"
  proof -
    have "\<And>item. (''/b'', item) \<in> set ps \<Longrightarrow> kept_methods item ''X'' = []"
    proof -
      fix item assume "(''/b'', item) \<in> set ps"
      with d ps have "get_prop ?paths ''/b'' = item" by (simp add: lookup_member)
      with b(2) show "kept_methods item ''X'' = []"
        by (auto simp: kept_methods_def filter_empty_conv list_all_iff carries_def)
    qed
    with ps show ?thesis by (auto simp: filtered_paths_keys)
  qed
  have gAll: "groupName_of (query reqAll) = all_label"
    using reqAll(2) by (simp add: groupName_of_def all_label_def)
  have all: "sent_content (legacy_serveExpress this P reqAll res \<sigma>) = Some doc"
    unfolding legacy_all_response [OF st reqAll(1) gAll]
    using st by (simp add: sent_content_def stores_def)
  have keyA0: "''/a'' \<in> set (own_keys ?paths)"
    using in_a ps by (auto intro: rev_image_eqI)
  show ?thesis
    using D keyA entA kept noB all keyA0 b(1) by auto
qed

section \<open>The claims about the current protocol\<close>

text \<open>
  \<^bold>\<open>C1.\<close> Current protocol. Let the adapter hold an object whose content \<open>D\<close> is
  JSON-serializable, and let the request's \<^verbatim>\<open>url\<close> be the prefix followed by
  \<^verbatim>\<open>/swagger.json\<close>. Then the handler does not throw, sends a body whose content is
  \<open>D\<close>, and the body is a new object: its reference differs from the stored one and is
  not an address of the store before the request. The stored document still holds \<open>D\<close>,
  no status is set and \<^verbatim>\<open>next\<close> is not called.
\<close>

theorem swagger_json_serves_deep_copy:
  assumes obj: "is_object \<sigma> (swaggerJson this)"
    and doc: "deref \<sigma> (swaggerJson this) = Inr D"
    and ser: "serializable D"
    and url: "url req = P @ ''/swagger.json''"
  shows "\<exists>r b. serveExpress env this P req res \<sigma> = Inr r
           \<and> sent (out r) = Some (VRef b) \<and> deref (heap r) (VRef b) = Inr D
           \<and> VRef b \<noteq> swaggerJson this \<and> \<not> b < length \<sigma>
           \<and> deref (heap r) (swaggerJson this) = Inr D
           \<and> statusCode (out r) = statusCode res \<and> next_calls r = 0"
proof -
  from JSON_roundtrip_object [OF obj] obtain a j where
    v: "swaggerJson this = VRef a" and a: "a < length \<sigma>" and j: "JSON_stringify (\<sigma> ! a) = Some j"
    and rt: "JSON_roundtrip \<sigma> (swaggerJson this) = Inr (VRef (length \<sigma>), \<sigma> @ [JSON_parse j])"
    by blast
  from doc v a have D: "\<sigma> ! a = D" by simp
  from JSON_parse_stringify [OF ser] j D have p: "JSON_parse j = D" by auto
  have g: "truthy_val (swaggerJson this) \<and> typeof (swaggerJson this) = ''object''"
    using obj by (rule is_object_guard)
  have "serveExpress env this P req res \<sigma> =
          Inr \<lparr>heap = \<sigma> @ [D], out = res\<lparr>sent := Some (VRef (length \<sigma>))\<rparr>, next_calls = 0, console = []\<rparr>"
    using g rt p url by (simp add: serveExpress_def swagger_not_services)
  moreover have "VRef (length \<sigma>) \<noteq> swaggerJson this" using v a by simp
  ultimately show ?thesis using v a D by (simp add: nth_append)
qed

text \<open>The theorem at the small installation.\<close>

theorem swagger_json_serves_deep_copy_witness:
  "is_object [demo_doc] (swaggerJson demo_adapter)
   \<and> deref [demo_doc] (swaggerJson demo_adapter) = Inr demo_doc
   \<and> serializable demo_doc
   \<and> url (plain_request ''/doc/swagger.json'') = ''/doc'' @ ''/swagger.json''
   \<and> (\<exists>r b. serveExpress demo_env demo_adapter ''/doc'' (plain_request ''/doc/swagger.json'') fresh_res [demo_doc] = Inr r
           \<and> sent (out r) = Some (VRef b) \<and> deref (heap r) (VRef b) = Inr demo_doc
           \<and> VRef b \<noteq> swaggerJson demo_adapter \<and> \<not> b < length [demo_doc]
           \<and> deref (heap r) (swaggerJson demo_adapter) = Inr demo_doc
           \<and> statusCode (out r) = statusCode fresh_res \<and> next_calls r = 0)"
proof -
  have h: "is_object [demo_doc] (swaggerJson demo_adapter)"
    "deref [demo_doc] (swaggerJson demo_adapter) = Inr demo_doc"
    "serializable demo_doc"
    "url (plain_request ''/doc/swagger.json'') = ''/doc'' @ ''/swagger.json''"
    by (simp_all add: demo_adapter_def demo_doc_def demo_op_X_def demo_op_Y_def plain_request_def)
  from swagger_json_serves_deep_copy [OF h, of demo_env fresh_res] h show ?thesis by blast
qed

text \<open>
  \<^bold>\<open>C2.\<close> Current protocol, \<^verbatim>\<open>/services.json\<close>. The claim speaks of every adapter, with any
  document. An adapter constructed with \<^verbatim>\<open>null\<close> answers \<^verbatim>\<open>/services.json\<close> with the
  status 500 and the error object, not with a list of one descriptor: the guard on the
  document comes before the paths.
\<close>

theorem services_json_null_document_counterexample:
  "serveExpress demo_env null_adapter ''/doc'' (plain_request ''/services.json'') fresh_res []
     = Inr \<lparr>heap = [JObj [(''error'', JStr ''Swagger configuration is not available''),
                          (''message'', JStr ''Please check if swaggerJson was properly passed to Knife4jDoc constructor'')]],
             out = \<lparr>statusCode = Some 500, headers = [], sent = Some (VRef 0)\<rparr>,
             next_calls = 0,
             console = [''Knife4jDoc: swaggerJson is invalid or undefined'']\<rparr>"
  by (simp add: serveExpress_def null_adapter_def new_Knife4jDoc_def plain_request_def fresh_res_def)

text \<open>
  \<^bold>\<open>C2\<close>, amended. For every adapter whose stored document is an object, every display
  name and every prefix, a request whose \<^verbatim>\<open>url\<close> is \<^verbatim>\<open>/services.json\<close> is answered
  with a list of exactly one descriptor: the adapter's name, the prefix followed by
  \<^verbatim>\<open>/swagger.json\<close> as url, the location string of \<^verbatim>\<open>getSwagger\<close> and the version
  \<^verbatim>\<open>3.0.0\<close>. No status is set and \<^verbatim>\<open>next\<close> is not called.
\<close>

theorem services_json_descriptor:
  assumes obj: "is_object \<sigma> (swaggerJson this)"
    and url: "url req = ''/services.json''"
  shows "\<exists>r b. serveExpress env this P req res \<sigma> = Inr r
           \<and> sent (out r) = Some b
           \<and> deref (heap r) b = Inr (JArr [JObj [(''name'', JStr (name this)),
                                                 (''url'', JStr (P @ ''/swagger.json'')),
                                                 (''location'', JStr (getSwagger env)),
                                                 (''swaggerVersion'', JStr ''3.0.0'')]])
           \<and> statusCode (out r) = statusCode res \<and> next_calls r = 0"
proof -
  from JSON_roundtrip_object [OF obj] obtain j where
    rt: "JSON_roundtrip \<sigma> (swaggerJson this) = Inr (VRef (length \<sigma>), \<sigma> @ [JSON_parse j])"
    by blast
  show ?thesis using is_object_guard [OF obj] rt url by (simp add: serveExpress_def nth_append)
qed

text \<open>The theorem at the small installation.\<close>

theorem services_json_descriptor_witness:
  "is_object [demo_doc] (swaggerJson demo_adapter)
   \<and> url (plain_request ''/services.json'') = ''/services.json''
   \<and> (\<exists>r b. serveExpress demo_env demo_adapter ''/doc'' (plain_request ''/services.json'') fresh_res [demo_doc] = Inr r
           \<and> sent (out r) = Some b
           \<and> deref (heap r) b = Inr (JArr [JObj [(''name'', JStr (name demo_adapter)),
                                                 (''url'', JStr (''/doc'' @ ''/swagger.json'')),
                                                 (''location'', JStr (getSwagger demo_env)),
                                                 (''swaggerVersion'', JStr ''3.0.0'')]])
           \<and> statusCode (out r) = statusCode fresh_res \<and> next_calls r = 0)"
proof -
  have h: "is_object [demo_doc] (swaggerJson demo_adapter)"
    "url (plain_request ''/services.json'') = ''/services.json''"
    by (simp_all add: demo_adapter_def demo_doc_def plain_request_def)
  from services_json_descriptor [OF h, of demo_env "''/doc''" fresh_res] h show ?thesis by blast
qed

text \<open>
  \<^bold>\<open>C3.\<close> If the stored document is \<^verbatim>\<open>null\<close> or not an object, then for every
  request, prefix and store the handler returns normally (no fault) with the status 500,
  a new body \<^verbatim>\<open>{error, message}\<close> and no call of \<^verbatim>\<open>next\<close>. The right-hand side names
  neither the request nor the prefix: the outcome is the same for every path and query.
\<close>

theorem invalid_document_answers_500:
  assumes "swaggerJson this = VPrim PNull \<or> typeof (swaggerJson this) \<noteq> ''object''"
  shows "serveExpress env this P req res \<sigma> =
           Inr \<lparr>heap = \<sigma> @ [JObj [(''error'', JStr ''Swagger configuration is not available''),
                   (''message'', JStr ''Please check if swaggerJson was properly passed to Knife4jDoc constructor'')]],
                out = res\<lparr>statusCode := Some 500, sent := Some (VRef (length \<sigma>))\<rparr>,
                next_calls = 0,
                console = [''Knife4jDoc: swaggerJson is invalid or undefined'']\<rparr>"
  using assms by (auto simp add: serveExpress_def)

text \<open>The theorem at the small installation.\<close>

theorem invalid_document_answers_500_witness:
  "swaggerJson null_adapter = VPrim PNull
   \<and> serveExpress demo_env null_adapter ''/doc'' (plain_request ''/doc/swagger.json'') fresh_res [demo_doc] =
           Inr \<lparr>heap = [demo_doc] @ [JObj [(''error'', JStr ''Swagger configuration is not available''),
                   (''message'', JStr ''Please check if swaggerJson was properly passed to Knife4jDoc constructor'')]],
                out = fresh_res\<lparr>statusCode := Some 500, sent := Some (VRef (length [demo_doc]))\<rparr>,
                next_calls = 0,
                console = [''Knife4jDoc: swaggerJson is invalid or undefined'']\<rparr>"
proof -
  have h: "swaggerJson null_adapter = VPrim PNull"
    by (simp add: null_adapter_def new_Knife4jDoc_def)
  from invalid_document_answers_500 [of null_adapter, OF disjI1, OF h] h show ?thesis by blast
qed

text \<open>
  \<^bold>\<open>C4.\<close> Current protocol. With an object as stored document, a request whose
  \<^verbatim>\<open>url\<close> is neither \<^verbatim>\<open>/services.json\<close> nor the prefix followed by
  \<^verbatim>\<open>/swagger.json\<close> makes the handler call \<^verbatim>\<open>next\<close> once and leave the response as it
  was: no body, no status.
\<close>

theorem unmatched_path_calls_next:
  assumes obj: "is_object \<sigma> (swaggerJson this)"
    and "url req \<noteq> ''/services.json''" and "url req \<noteq> P @ ''/swagger.json''"
  shows "\<exists>\<sigma>'. serveExpress env this P req res \<sigma> = Inr \<lparr>heap = \<sigma>', out = res, next_calls = 1, console = []\<rparr>"
proof -
  from JSON_roundtrip_object [OF obj] obtain j where
    rt: "JSON_roundtrip \<sigma> (swaggerJson this) = Inr (VRef (length \<sigma>), \<sigma> @ [JSON_parse j])"
    by blast
  show ?thesis using is_object_guard [OF obj] rt assms(2,3) by (simp add: serveExpress_def)
qed

text \<open>The theorem at the small installation.\<close>

theorem unmatched_path_calls_next_witness:
  "is_object [demo_doc] (swaggerJson demo_adapter)
   \<and> url (plain_request ''/index.html'') \<noteq> ''/services.json''
   \<and> url (plain_request ''/index.html'') \<noteq> ''/doc'' @ ''/swagger.json''
   \<and> (\<exists>\<sigma>'. serveExpress demo_env demo_adapter ''/doc'' (plain_request ''/index.html'') fresh_res [demo_doc]
            = Inr \<lparr>heap = \<sigma>', out = fresh_res, next_calls = 1, console = []\<rparr>)"
proof -
  have h: "is_object [demo_doc] (swaggerJson demo_adapter)"
    "url (plain_request ''/index.html'') \<noteq> ''/services.json''"
    "url (plain_request ''/index.html'') \<noteq> ''/doc'' @ ''/swagger.json''"
    by (simp_all add: demo_adapter_def demo_doc_def plain_request_def)
  from unmatched_path_calls_next [OF h, of demo_env fresh_res] h show ?thesis by blast
qed

text \<open>
  \<^bold>\<open>C6.\<close> For every document (valid or not), display name, prefix, request and store,
  the Express handler and the Koa handler of the current protocol have the same outcome:
  both throw the same fault, or they write the same status and bodies of the same
  content and call \<^verbatim>\<open>next\<close> equally often.
\<close>

theorem express_koa_same_outcome:
  "map_sum id observe_express (serveExpress env this P req fresh_res \<sigma>)
     = map_sum id observe_koa (serveKoa env this P (fresh_ctx req) \<sigma>)"
  by (simp add: serveExpress_def serveKoa_def observe_express_def observe_koa_def fresh_res_def
      fresh_ctx_def Let_def split: sum.splits prod.splits)

text \<open>The theorem at the small installation.\<close>

theorem express_koa_same_outcome_witness:
  "map_sum id observe_express (serveExpress demo_env demo_adapter ''/doc'' (plain_request ''/doc/swagger.json'') fresh_res [demo_doc])
     = map_sum id observe_koa (serveKoa demo_env demo_adapter ''/doc'' (fresh_ctx (plain_request ''/doc/swagger.json'')) [demo_doc])
   \<and> map_sum id observe_koa (serveKoa demo_env demo_adapter ''/doc'' (fresh_ctx (plain_request ''/doc/swagger.json'')) [demo_doc])
     = Inr \<lparr>obs_status = None, obs_body = Some (Inr demo_doc), obs_next = 0\<rparr>"
proof -
  have "map_sum id observe_koa (serveKoa demo_env demo_adapter ''/doc'' (fresh_ctx (plain_request ''/doc/swagger.json'')) [demo_doc])
     = Inr \<lparr>obs_status = None, obs_body = Some (Inr demo_doc), obs_next = 0\<rparr>"
    by (simp add: serveKoa_def observe_koa_def fresh_ctx_def plain_request_def demo_adapter_def
        demo_doc_def demo_op_X_def demo_op_Y_def JSON_roundtrip_def)
  with express_koa_same_outcome [of demo_env demo_adapter "''/doc''" "plain_request ''/doc/swagger.json''" "[demo_doc]"]
  show ?thesis by blast
qed

text \<open>
  \<^bold>\<open>C10.\<close> Current protocol. With an object as stored document, the same
  \<^verbatim>\<open>{P}/swagger.json\<close> request served twice in a row (the second on the store the first
  left) sends two bodies with the same JSON text.
\<close>

theorem swagger_json_twice_same_text:
  assumes obj: "is_object \<sigma> (swaggerJson this)"
    and url: "url req = P @ ''/swagger.json''"
  shows "\<exists>r1 r2 b1 b2 text.
           serveExpress env this P req res \<sigma> = Inr r1 \<and> sent (out r1) = Some b1
           \<and> serveExpress env this P req res' (heap r1) = Inr r2 \<and> sent (out r2) = Some b2
           \<and> wire (heap r1) b1 = Inr (Some text) \<and> wire (heap r2) b2 = Inr (Some text)"
proof -
  from JSON_roundtrip_object [OF obj] obtain a j t where
    v: "swaggerJson this = VRef a" and a: "a < length \<sigma>" and j: "JSON_stringify (\<sigma> ! a) = Some j"
    and rt: "JSON_roundtrip \<sigma> (swaggerJson this) = Inr (VRef (length \<sigma>), \<sigma> @ [JSON_parse j])"
    and nv: "\<And>\<sigma>'. new_value \<sigma>' (JSON_parse j) = (VRef (length \<sigma>'), \<sigma>' @ [JSON_parse j])"
    and t: "JSON_stringify (JSON_parse j) = Some t"
    by blast
  let ?\<sigma>1 = "\<sigma> @ [JSON_parse j]"
  have g: "truthy_val (swaggerJson this) \<and> typeof (swaggerJson this) = ''object''"
    using obj by (rule is_object_guard)
  have r1: "serveExpress env this P req res \<sigma> =
          Inr \<lparr>heap = ?\<sigma>1, out = res\<lparr>sent := Some (VRef (length \<sigma>))\<rparr>, next_calls = 0, console = []\<rparr>"
    using g rt url by (simp add: serveExpress_def swagger_not_services)
  have rt2: "JSON_roundtrip ?\<sigma>1 (swaggerJson this) = Inr (VRef (length ?\<sigma>1), ?\<sigma>1 @ [JSON_parse j])"
    using v a j nv by (simp add: JSON_roundtrip_def nth_append)
  have r2: "serveExpress env this P req res' ?\<sigma>1 =
          Inr \<lparr>heap = ?\<sigma>1 @ [JSON_parse j], out = res'\<lparr>sent := Some (VRef (length ?\<sigma>1))\<rparr>, next_calls = 0, console = []\<rparr>"
    using g rt2 url by (simp add: serveExpress_def swagger_not_services)
  have w1: "wire ?\<sigma>1 (VRef (length \<sigma>)) = Inr (Some t)"
    using t by (simp add: wire_def)
  have w2: "wire (?\<sigma>1 @ [JSON_parse j]) (VRef (length ?\<sigma>1)) = Inr (Some t)"
    using t by (simp add: wire_def nth_append)
  show ?thesis
    unfolding r1 using r2 w1 w2 by simp
qed

text \<open>The theorem at the small installation.\<close>

theorem swagger_json_twice_same_text_witness:
  "is_object [demo_doc] (swaggerJson demo_adapter)
   \<and> url (plain_request ''/doc/swagger.json'') = ''/doc'' @ ''/swagger.json''
   \<and> (\<exists>r1 r2 b1 b2 text.
           serveExpress demo_env demo_adapter ''/doc'' (plain_request ''/doc/swagger.json'') fresh_res [demo_doc] = Inr r1
           \<and> sent (out r1) = Some b1
           \<and> serveExpress demo_env demo_adapter ''/doc'' (plain_request ''/doc/swagger.json'') fresh_res (heap r1) = Inr r2
           \<and> sent (out r2) = Some b2
           \<and> wire (heap r1) b1 = Inr (Some text) \<and> wire (heap r2) b2 = Inr (Some text))"
proof -
  have h: "is_object [demo_doc] (swaggerJson demo_adapter)"
    "url (plain_request ''/doc/swagger.json'') = ''/doc'' @ ''/swagger.json''"
    by (simp_all add: demo_adapter_def demo_doc_def plain_request_def)
  from swagger_json_twice_same_text [OF h, of demo_env fresh_res fresh_res] h show ?thesis by blast
qed

section \<open>The claims about the legacy protocol\<close>

text \<open>
  \<^bold>\<open>C5.\<close> The claim: a request, and a legacy tag-filtered request in particular, leaves
  the stored document as it was. The legacy handlers do not: they filter the stored
  object itself. Here the document has \<^verbatim>\<open>/a\<close> tagged \<^verbatim>\<open>X\<close> and \<^verbatim>\<open>/b\<close> tagged
  \<^verbatim>\<open>Y\<close>. After one request for the group \<^verbatim>\<open>X\<close> (Express or Koa) the store holds the
  document without \<^verbatim>\<open>/b\<close>; a following request for ``all'' returns that reduced
  document, and one for \<^verbatim>\<open>Y\<close> returns no paths at all.
\<close>

theorem legacy_filter_overwrites_stored_document:
  "legacy_serveExpress demo_adapter [] request_X fresh_res [demo_doc]
     = Inr \<lparr>heap = [demo_doc_only_X], out = fresh_res\<lparr>sent := Some (VRef 0)\<rparr>,
             next_calls = 0, console = []\<rparr>
   \<and> legacy_serveKoa demo_adapter [] (fresh_ctx request_X) [demo_doc]
     = Inr \<lparr>heap = [demo_doc_only_X], out = (fresh_ctx request_X)\<lparr>body := Some (VRef 0)\<rparr>,
             next_calls = 0, console = []\<rparr>
   \<and> demo_doc_only_X \<noteq> demo_doc
   \<and> sent_content (legacy_serveExpress demo_adapter [] request_all fresh_res [demo_doc_only_X])
       = Some demo_doc_only_X
   \<and> sent_content (legacy_serveExpress demo_adapter [] request_Y fresh_res [demo_doc_only_X])
       = Some (JObj [(''openapi'', JStr ''3.0.0''), (''paths'', JObj [])])"
  by (simp add: legacy_serveExpress_def legacy_serveKoa_def demo_adapter_def demo_doc_def
      demo_doc_only_X_def demo_op_X_def demo_op_Y_def request_X_def request_Y_def request_all_def
      fresh_res_def fresh_ctx_def groupName_of_def all_label_def build_groupPaths_def
      inherited_def Object_prototype_names_def sent_content_def lookup_or_undefined_def Let_def)

text \<open>The stored document before and after the request for \<^verbatim>\<open>X\<close>.\<close>

theorem legacy_filter_overwrites_stored_document_witness:
  "deref [demo_doc] (swaggerJson demo_adapter) = Inr demo_doc
   \<and> map_sum id (\<lambda>r. deref (heap r) (swaggerJson demo_adapter))
        (legacy_serveExpress demo_adapter [] request_X fresh_res [demo_doc])
      = Inr (Inr demo_doc_only_X)"
  using legacy_filter_overwrites_stored_document
  by (simp add: demo_adapter_def)

text \<open>
  \<^bold>\<open>C7.\<close> Legacy protocol. Let the stored document be an object whose paths are \<^verbatim>\<open>/a\<close>
  with one operation tagged \<^verbatim>\<open>["X"]\<close> and \<^verbatim>\<open>/b\<close> with one operation tagged
  \<^verbatim>\<open>["Y"]\<close>. The operations stand under any two methods that are not called like a
  member of \<^verbatim>\<open>Object.prototype\<close> (no HTTP method is); the other fields of the operations
  and the other fields of the document are arbitrary. A request to \<^verbatim>\<open>/api-docs/X\<close> with
  \<^verbatim>\<open>groupName=X\<close> returns a document whose paths are \<^verbatim>\<open>/a\<close> with its operation,
  without \<^verbatim>\<open>/b\<close>. A request with the group name ``all'' returns the document itself,
  which has both. Each request is served on the document as stored.
\<close>

theorem legacy_filter_scenario:
  assumes ref: "swaggerJson this = VRef a" "a < length \<sigma>" "\<sigma> ! a = JObj kvs"
    and paths: "get_prop (JObj kvs) ''paths''
                  = JObj [(''/a'', JObj [(method_a, operation_a)]), (''/b'', JObj [(method_b, operation_b)])]"
    and methods: "ordinary_key method_a" "ordinary_key method_b"
    and tags: "get_prop operation_a ''tags'' = JArr [JStr ''X'']" "get_prop operation_b ''tags'' = JArr [JStr ''Y'']"
    and reqX: "prefix ''/api-docs/X'' (url reqX)" "query reqX ''groupName'' = Some ''X''"
    and reqAll: "prefix ''/api-docs/'' (url reqAll)" "query reqAll ''groupName'' = Some all_label"
  shows "(\<exists>D. sent_content (legacy_serveExpress this P reqX res \<sigma>) = Some D
            \<and> get_prop D ''paths'' = JObj [(''/a'', JObj [(method_a, operation_a)])])
       \<and> sent_content (legacy_serveExpress this P reqAll res \<sigma>) = Some (JObj kvs)"
proof -
  have "ordinary_key ''/a''" "ordinary_key ''/b''"
    by (simp_all add: ordinary_key_def Object_prototype_names_def)
  then have conf: "conforms (JObj kvs)"
    unfolding conforms.simps paths using tags methods by (simp add: tags_typed_def)
  with ref have st: "stores \<sigma> this a (JObj kvs)" by (simp add: stores_def)
  have gX: "groupName_of (query reqX) = ''X''" using reqX(2) by (simp add: groupName_of_def)
  then have gX': "groupName_of (query reqX) \<noteq> all_label" by (simp add: all_label_def)
  have "prefix ''/api-docs/'' ''/api-docs/X''" by simp
  from this reqX(1) have pX: "prefix ''/api-docs/'' (url reqX)" by (rule prefix_order.trans)
  have f: "filtered_paths (get_prop (JObj kvs) ''paths'') ''X'' = JObj [(''/a'', JObj [(method_a, operation_a)])]"
    unfolding paths using tags by (simp add: filtered_paths_def kept_methods_def carries_def path_entry_def)
  have gAll: "groupName_of (query reqAll) = all_label"
    using reqAll(2) by (simp add: groupName_of_def all_label_def)
  have all: "sent_content (legacy_serveExpress this P reqAll res \<sigma>) = Some (JObj kvs)"
    unfolding legacy_all_response [OF st reqAll(1) gAll]
    using ref by (simp add: sent_content_def)
  from sent_content_filter [OF st pX gX', of P res] gX f all show ?thesis by auto
qed

text \<open>The theorem at the small installation.\<close>

theorem legacy_filter_scenario_witness:
  "swaggerJson demo_adapter = VRef 0 \<and> 0 < length [demo_doc]
   \<and> [demo_doc] ! 0 = JObj [(''openapi'', JStr ''3.0.0''),
                    (''paths'', JObj [(''/a'', JObj [(''get'', demo_op_X)]),
                                      (''/b'', JObj [(''post'', demo_op_Y)])])]
   \<and> get_prop demo_doc ''paths'' = JObj [(''/a'', JObj [(''get'', demo_op_X)]), (''/b'', JObj [(''post'', demo_op_Y)])]
   \<and> ordinary_key ''get'' \<and> ordinary_key ''post''
   \<and> get_prop demo_op_X ''tags'' = JArr [JStr ''X''] \<and> get_prop demo_op_Y ''tags'' = JArr [JStr ''Y'']
   \<and> prefix ''/api-docs/X'' (url request_X) \<and> query request_X ''groupName'' = Some ''X''
   \<and> prefix ''/api-docs/'' (url request_all) \<and> query request_all ''groupName'' = Some all_label
   \<and> (\<exists>D. sent_content (legacy_serveExpress demo_adapter [] request_X fresh_res [demo_doc]) = Some D
            \<and> get_prop D ''paths'' = JObj [(''/a'', JObj [(''get'', demo_op_X)])])
   \<and> sent_content (legacy_serveExpress demo_adapter [] request_all fresh_res [demo_doc]) = Some demo_doc"
proof -
  have h: "swaggerJson demo_adapter = VRef 0" "0 < length [demo_doc]"
    "[demo_doc] ! 0 = JObj [(''openapi'', JStr ''3.0.0''),
                    (''paths'', JObj [(''/a'', JObj [(''get'', demo_op_X)]),
                                      (''/b'', JObj [(''post'', demo_op_Y)])])]"
    "get_prop (JObj [(''openapi'', JStr ''3.0.0''),
                    (''paths'', JObj [(''/a'', JObj [(''get'', demo_op_X)]),
                                      (''/b'', JObj [(''post'', demo_op_Y)])])]) ''paths''
       = JObj [(''/a'', JObj [(''get'', demo_op_X)]), (''/b'', JObj [(''post'', demo_op_Y)])]"
    "ordinary_key ''get''" "ordinary_key ''post''"
    "get_prop demo_op_X ''tags'' = JArr [JStr ''X'']" "get_prop demo_op_Y ''tags'' = JArr [JStr ''Y'']"
    by (simp_all add: demo_adapter_def demo_doc_def demo_op_X_def demo_op_Y_def lookup_or_undefined_def
        ordinary_key_def Object_prototype_names_def)
  have r: "prefix ''/api-docs/X'' (url request_X)"
    "query request_X ''groupName'' = Some ''X''"
    "prefix ''/api-docs/'' (url request_all)"
    "query request_all ''groupName'' = Some all_label"
    by (simp_all add: request_X_def request_all_def)
  from legacy_filter_scenario [OF h r, of "[]" fresh_res] h r show ?thesis
    by (simp add: demo_doc_def)
qed

text \<open>
  \<^bold>\<open>C8.\<close> The claim speaks of every document. Stored values on which the request for
  \<^verbatim>\<open>/v3/api-docs/swagger-config\<close> does not return a document with a group list: with
  \<^verbatim>\<open>null\<close> the guard answers 500; on an object whose operation has the string
  \<^verbatim>\<open>"X"\<close> as tags, \<^verbatim>\<open>operation.tags.forEach\<close> is not a function and the handler
  throws; and on an object with a method or a path called \<^verbatim>\<open>hasOwnProperty\<close>, the test
  \<^verbatim>\<open>pathObject.hasOwnProperty(method)\<close> or \<^verbatim>\<open>swaggerDocs.paths.hasOwnProperty(path)\<close>
  calls that entry, which is no function, and the handler throws.
\<close>

theorem legacy_group_list_counterexample:
  "legacy_serveExpress null_adapter ''/doc'' (plain_request ''/v3/api-docs/swagger-config'') fresh_res []
     = Inr \<lparr>heap = [JObj [(''error'', JStr ''Swagger configuration is not available''),
                          (''message'', JStr ''Please check if swaggerJson was properly passed to Knife4jDoc constructor'')]],
             out = \<lparr>statusCode = Some 500, headers = [], sent = Some (VRef 0)\<rparr>,
             next_calls = 0,
             console = [''Knife4jDoc: swaggerJson is invalid or undefined'']\<rparr>
   \<and> legacy_serveExpress demo_adapter ''/doc'' (plain_request ''/v3/api-docs/swagger-config'') fresh_res
        [untyped_doc]
     = Inl TypeError
   \<and> legacy_serveExpress demo_adapter ''/doc'' (plain_request ''/v3/api-docs/swagger-config'') fresh_res
        [shadowing_method_doc]
     = Inl TypeError
   \<and> legacy_serveExpress demo_adapter ''/doc'' (plain_request ''/v3/api-docs/swagger-config'') fresh_res
        [shadowing_path_doc]
     = Inl TypeError"
  by (simp add: legacy_serveExpress_def null_adapter_def new_Knife4jDoc_def demo_adapter_def
      untyped_doc_def shadowing_method_doc_def shadowing_path_doc_def demo_op_X_def demo_op_Y_def
      plain_request_def fresh_res_def collect_uniqueTags_def lookup_or_undefined_def Let_def)

text \<open>
  \<^bold>\<open>C8\<close>, amended. Legacy protocol. For every stored document of the declared shape (an
  object; \<^verbatim>\<open>paths\<close>, if present, an object of objects; tags, where present, arrays of
  strings; no path and no method called like a member of \<^verbatim>\<open>Object.prototype\<close>) there
  is a list of tags, each tag once, whose members are exactly the tag strings that occur
  in the tags array of some operation under \<^verbatim>\<open>paths\<close>, such that: a request whose
  \<^verbatim>\<open>url\<close> is \<^verbatim>\<open>/v3/api-docs/swagger-config\<close> returns the stored document with the field
  \<^verbatim>\<open>urls\<close> set to the group list (the fixed ``all'' group first, then one group for each
  tag of the list, each with url \<^verbatim>\<open>{prefix}/api-docs/{tag}\<close>, version \<^verbatim>\<open>3.0.0\<close> and an
  empty service path); and a request to \<^verbatim>\<open>/swagger-resources\<close> returns that same group
  list alone, as a new array.
\<close>

theorem legacy_group_list:
  assumes st: "stores \<sigma> this a doc"
  shows "\<exists>tags. distinct tags \<and> set tags = tags_under (get_prop doc ''paths'')
     \<and> (\<forall>req res. url req = ''/v3/api-docs/swagger-config'' \<longrightarrow>
           legacy_serveExpress this P req res \<sigma> =
             Inr \<lparr>heap = \<sigma>[a := set_prop doc ''urls'' (group_list P tags)],
                  out = res\<lparr>headers := headers res @ [(''Content-Type'', ''application/json'')],
                            sent := Some (VRef a)\<rparr>,
                  next_calls = 0, console = []\<rparr>)
     \<and> (\<forall>req res. url req = ''/swagger-resources'' \<longrightarrow>
           legacy_serveExpress this P req res \<sigma> =
             Inr \<lparr>heap = \<sigma> @ [group_list P tags], out = res\<lparr>sent := Some (VRef (length \<sigma>))\<rparr>,
                  next_calls = 0, console = []\<rparr>)"
proof -
  from st have "conforms doc" by (simp add: stores_def)
  then have "paths_typed (get_prop doc ''paths'')" using conforms_object by blast
  from collect_uniqueTags_conforming [OF this] obtain tags where
    tags: "collect_uniqueTags doc = Inr tags" "distinct tags"
      "set tags = tags_under (get_prop doc ''paths'')"
    by blast
  show ?thesis
    using tags(2,3) legacy_config_response [OF st tags(1)] legacy_resources_response [OF st tags(1)]
    by blast
qed

text \<open>The theorem at the small installation: the tags are \<^verbatim>\<open>X\<close> and \<^verbatim>\<open>Y\<close>.\<close>

theorem legacy_group_list_witness:
  "stores [demo_doc] demo_adapter 0 demo_doc
   \<and> tags_under (get_prop demo_doc ''paths'') = {''X'', ''Y''}
   \<and> (\<exists>tags. distinct tags \<and> set tags = {''X'', ''Y''}
        \<and> legacy_serveExpress demo_adapter ''/doc'' (plain_request ''/v3/api-docs/swagger-config'') fresh_res [demo_doc] =
             Inr \<lparr>heap = [demo_doc][0 := set_prop demo_doc ''urls'' (group_list ''/doc'' tags)],
                  out = fresh_res\<lparr>headers := headers fresh_res @ [(''Content-Type'', ''application/json'')],
                            sent := Some (VRef 0)\<rparr>,
                  next_calls = 0, console = []\<rparr>
        \<and> legacy_serveExpress demo_adapter ''/doc'' (plain_request ''/swagger-resources'') fresh_res [demo_doc] =
             Inr \<lparr>heap = [demo_doc] @ [group_list ''/doc'' tags],
                  out = fresh_res\<lparr>sent := Some (VRef (length [demo_doc]))\<rparr>,
                  next_calls = 0, console = []\<rparr>)"
proof -
  have h: "stores [demo_doc] demo_adapter 0 demo_doc"
    by (simp add: stores_def demo_adapter_def demo_doc_def demo_op_X_def demo_op_Y_def
        lookup_or_undefined_def tags_typed_def ordinary_key_def Object_prototype_names_def)
  have t: "tags_under (get_prop demo_doc ''paths'') = {''X'', ''Y''}"
    by (auto simp: tags_under_def demo_doc_def demo_op_X_def demo_op_Y_def
        lookup_or_undefined_def carries_def)
  have u: "url (plain_request ''/v3/api-docs/swagger-config'') = ''/v3/api-docs/swagger-config''"
    "url (plain_request ''/swagger-resources'') = ''/swagger-resources''"
    by (simp_all add: plain_request_def)
  from legacy_group_list [OF h, of "''/doc''"] obtain tags where
    T: "distinct tags" "set tags = tags_under (get_prop demo_doc ''paths'')"
       "\<And>req res. url req = ''/v3/api-docs/swagger-config'' \<Longrightarrow>
           legacy_serveExpress demo_adapter ''/doc'' req res [demo_doc] =
             Inr \<lparr>heap = [demo_doc][0 := set_prop demo_doc ''urls'' (group_list ''/doc'' tags)],
                  out = res\<lparr>headers := headers res @ [(''Content-Type'', ''application/json'')],
                            sent := Some (VRef 0)\<rparr>,
                  next_calls = 0, console = []\<rparr>"
       "\<And>req res. url req = ''/swagger-resources'' \<Longrightarrow>
           legacy_serveExpress demo_adapter ''/doc'' req res [demo_doc] =
             Inr \<lparr>heap = [demo_doc] @ [group_list ''/doc'' tags], out = res\<lparr>sent := Some (VRef (length [demo_doc]))\<rparr>,
                  next_calls = 0, console = []\<rparr>"
    by blast
  from T(1) T(2) T(3) [OF u(1), of fresh_res] T(4) [OF u(2), of fresh_res] t h
  show ?thesis by (intro conjI exI [of _ tags]) simp_all
qed

text \<open>
  \<^bold>\<open>C9.\<close> The claim: a path none of whose operations carries the requested tag stays in
  the returned paths as an empty object. In the document of the installation no
  operation under \<^verbatim>\<open>/b\<close> carries \<^verbatim>\<open>X\<close>; the answer to the request for \<^verbatim>\<open>X\<close> has
  \<^verbatim>\<open>/a\<close> as its only path key, and reading \<^verbatim>\<open>/b\<close> does not give an empty object. The
  handler creates the entry of a path inside the test for a matching operation. And where
  a path beside \<^verbatim>\<open>/b\<close> is called \<^verbatim>\<open>hasOwnProperty\<close>, the request returns no document at
  all: \<^verbatim>\<open>paths.hasOwnProperty(path)\<close> calls that entry and the handler throws.
\<close>

theorem legacy_filter_untagged_path_counterexample:
  "''/b'' \<in> set (own_keys (get_prop demo_doc ''paths''))
   \<and> members (get_prop (get_prop demo_doc ''paths'') ''/b'') = [(''post'', demo_op_Y)]
   \<and> \<not> carries demo_op_Y ''X''
   \<and> sent_content (legacy_serveExpress demo_adapter [] request_X fresh_res [demo_doc])
       = Some demo_doc_only_X
   \<and> own_keys (get_prop demo_doc_only_X ''paths'') = [''/a'']
   \<and> get_prop (get_prop demo_doc_only_X ''paths'') ''/b'' \<noteq> JObj []
   \<and> ''/b'' \<in> set (own_keys (get_prop shadowing_path_doc ''paths''))
   \<and> members (get_prop (get_prop shadowing_path_doc ''paths'') ''/b'') = [(''post'', demo_op_Y)]
   \<and> legacy_serveExpress demo_adapter [] request_X fresh_res [shadowing_path_doc] = Inl TypeError"
  by (simp add: legacy_serveExpress_def demo_adapter_def demo_doc_def shadowing_path_doc_def
      demo_doc_only_X_def demo_op_X_def demo_op_Y_def request_X_def fresh_res_def
      groupName_of_def all_label_def build_groupPaths_def inherited_def Object_prototype_names_def
      sent_content_def lookup_or_undefined_def carries_def Let_def)

text \<open>
  \<^bold>\<open>C9\<close>, amended. Legacy protocol, a request under \<^verbatim>\<open>/api-docs/\<close> for a group \<open>g\<close> other
  than ``all'', on a stored document of the declared shape (which has no path and no
  method called like a member of \<^verbatim>\<open>Object.prototype\<close>): a path of the document none
  of whose entries carries the tag \<open>g\<close> is not a key of the returned paths (reading it
  gives \<^verbatim>\<open>undefined\<close>).
\<close>

theorem legacy_filter_omits_untagged_paths:
  assumes st: "stores \<sigma> this a doc"
    and url: "prefix ''/api-docs/'' (url req)"
    and g: "groupName_of (query req) = g" "g \<noteq> all_label"
    and p: "p \<in> set (own_keys (get_prop doc ''paths''))"
    and none: "list_all (\<lambda>kv. \<not> carries (snd kv) g) (members (get_prop (get_prop doc ''paths'') p))"
  shows "\<exists>D. sent_content (legacy_serveExpress this P req res \<sigma>) = Some D
           \<and> p \<notin> set (own_keys (get_prop D ''paths''))
           \<and> get_prop (get_prop D ''paths'') p = JUndefined"
proof -
  from g have g': "groupName_of (query req) \<noteq> all_label" by simp
  from sent_content_filter [OF st url g'] g obtain D where
    D: "sent_content (legacy_serveExpress this P req res \<sigma>) = Some D"
       "get_prop D ''paths'' = filtered_paths (get_prop doc ''paths'') g"
    by auto
  from st have "conforms doc" by (simp add: stores_def)
  then have typed: "paths_typed (get_prop doc ''paths'')" using conforms_object by blast
  have absent: "p \<notin> set (own_keys (filtered_paths (get_prop doc ''paths'') g))"
  proof (cases "get_prop doc ''paths''")
    case (JObj ps)
    with typed have d: "distinct (map fst ps)" by simp
    have "\<And>item. (p, item) \<in> set ps \<Longrightarrow> kept_methods item g = []"
    proof -
      fix item assume "(p, item) \<in> set ps"
      with d JObj have "get_prop (get_prop doc ''paths'') p = item" by (simp add: lookup_member)
      with none show "kept_methods item g = []"
        by (auto simp: kept_methods_def filter_empty_conv list_all_iff)
    qed
    with JObj show ?thesis by (auto simp: filtered_paths_keys)
  qed (simp_all add: filtered_paths_def)
  then have "p \<notin> fst ` set (members (filtered_paths (get_prop doc ''paths'') g))"
    by (simp add: filtered_paths_def)
  from lookup_fresh [OF this]
  have "get_prop (filtered_paths (get_prop doc ''paths'') g) p = JUndefined"
    by (simp add: filtered_paths_def)
  with D absent show ?thesis by simp
qed

text \<open>The theorem at the small installation.\<close>

theorem legacy_filter_omits_untagged_paths_witness:
  "stores [demo_doc] demo_adapter 0 demo_doc
   \<and> prefix ''/api-docs/'' (url request_X)
   \<and> groupName_of (query request_X) = ''X''
   \<and> ''X'' \<noteq> all_label
   \<and> ''/b'' \<in> set (own_keys (get_prop demo_doc ''paths''))
   \<and> list_all (\<lambda>kv. \<not> carries (snd kv) ''X'') (members (get_prop (get_prop demo_doc ''paths'') ''/b''))
   \<and> (\<exists>D. sent_content (legacy_serveExpress demo_adapter [] request_X fresh_res [demo_doc]) = Some D
           \<and> ''/b'' \<notin> set (own_keys (get_prop D ''paths''))
           \<and> get_prop (get_prop D ''paths'') ''/b'' = JUndefined)"
proof -
  have h: "stores [demo_doc] demo_adapter 0 demo_doc"
    "prefix ''/api-docs/'' (url request_X)"
    "groupName_of (query request_X) = ''X''"
    "''X'' \<noteq> all_label"
    "''/b'' \<in> set (own_keys (get_prop demo_doc ''paths''))"
    "list_all (\<lambda>kv. \<not> carries (snd kv) ''X'') (members (get_prop (get_prop demo_doc ''paths'') ''/b''))"
    by (simp_all add: stores_def demo_adapter_def demo_doc_def demo_op_X_def demo_op_Y_def
        lookup_or_undefined_def tags_typed_def request_X_def groupName_of_def all_label_def carries_def
        ordinary_key_def Object_prototype_names_def)
  from legacy_filter_omits_untagged_paths [OF h, of "[]" fresh_res] h show ?thesis by blast
qed

end
